theory Spec2Isabelle
  imports Main "HOL-Library.Word" "HOL-Library.Sublist" "HOL-Library.Multiset" "HOL-Library.AList"
begin

section \<open>Go values shared by the packages\<close>

text \<open>
  A Go \<open>error\<close> is modelled by its message; \<open>nil\<close> is \<open>None\<close>.
  Go's \<open>int\<close> is 64 bits wide: the only arithmetic the status package does on it is
  \<open>currentStreak--\<close>, written out here with its wrap-around at the smallest value.
\<close>

type_synonym go_error = "string option"

definition decrement :: "int \<Rightarrow> int" where
  "decrement x = (if x = - (2 ^ 63) then 2 ^ 63 - 1 else x - 1)"

section \<open>Package status: the hysteresis states\<close>

record StatusConfig =
  HealthyStreak :: int
  UnhealthyStreak :: int
  InitialHealthyStreak :: int
  InitialUnhealthyStreak :: int

definition InitialStateName :: string where "InitialStateName = ''initial''"
definition HealthyStateName :: string where "HealthyStateName = ''healthy''"
definition UnhealthyStateName :: string where "UnhealthyStateName = ''unhealthy''"

text \<open>
  The three implementations of the \<open>State\<close> interface, with their fields in the order
  of the structs: \<open>Initial currentStreak lastState cfgHealthyStreak cfgUnhealthyStreak\<close>,
  \<open>Healthy currentStreak cfgStreakUntilHealthy cfgStreakUntilUnhealthy\<close> and
  \<open>Unhealthy currentStreak cfgStreakUntilHealthy cfgStreakUntilUnhealthy\<close>.
  A method receives the record as \<open>StateContext\<close> and may call \<open>SetState\<close> on it; the
  model returns the state the record holds after the call (the receiver, mutated in
  place, or the state handed to \<open>SetState\<close>).
\<close>

datatype State =
    Initial int string int int
  | Healthy int int int
  | Unhealthy int int int

definition NewUnknownState :: "StatusConfig \<Rightarrow> State" where
  "NewUnknownState opts =
     Initial (InitialHealthyStreak opts) '''' (HealthyStreak opts) (UnhealthyStreak opts)"

definition newHealthy :: "int \<Rightarrow> int \<Rightarrow> State" where
  "newHealthy healthyStreak unhealthyStreak = Healthy healthyStreak healthyStreak unhealthyStreak"

definition newUnhealthy :: "int \<Rightarrow> int \<Rightarrow> State" where
  "newUnhealthy healthyStreak unhealthyStreak = Unhealthy unhealthyStreak healthyStreak unhealthyStreak"

fun Name :: "State \<Rightarrow> string" where
  "Name (Initial c l h u) = InitialStateName"
| "Name (Healthy c h u) = HealthyStateName"
| "Name (Unhealthy c h u) = UnhealthyStateName"

fun Streak :: "State \<Rightarrow> int" where
  "Streak (Initial c l h u) = c"
| "Streak (Healthy c h u) = c"
| "Streak (Unhealthy c h u) = c"

text \<open>The method \<open>Healthy(ctx)\<close> of each state.\<close>

fun State_Healthy :: "State \<Rightarrow> State" where
  "State_Healthy (Initial c l h u) =
     (let c1 = (if l = UnhealthyStateName then h else c);
          l1 = (if l = UnhealthyStateName then HealthyStateName else l);
          c2 = decrement c1
      in if c2 \<le> 0 then newHealthy h u else Initial c2 l1 h u)"
| "State_Healthy (Healthy c h u) = Healthy u h u"
| "State_Healthy (Unhealthy c h u) =
     (let c1 = decrement c
      in if c1 \<le> 0 then newHealthy h u else Unhealthy c1 h u)"

text \<open>The method \<open>Unhealthy(ctx)\<close> of each state.\<close>

fun State_Unhealthy :: "State \<Rightarrow> State" where
  "State_Unhealthy (Initial c l h u) =
     (let c1 = (if l = HealthyStateName then u else c);
          l1 = (if l = HealthyStateName then UnhealthyStateName else l);
          c2 = decrement c1
      in if c2 \<le> 0 then newUnhealthy h u else Initial c2 l1 h u)"
| "State_Unhealthy (Healthy c h u) =
     (let c1 = decrement c
      in if c1 \<le> 0 then newUnhealthy h u else Healthy c1 h u)"
| "State_Unhealthy (Unhealthy c h u) = Unhealthy u h u"

text \<open>The method \<open>Error(ctx)\<close> of each state.\<close>

fun State_Error :: "State \<Rightarrow> State" where
  "State_Error (Initial c l h u) = Initial c l h u"
| "State_Error (Healthy c h u) =
     (let c1 = decrement c
      in if c1 \<le> 0 then newUnhealthy h u else Healthy c1 h u)"
| "State_Error (Unhealthy c h u) = Unhealthy u h u"

text \<open>
  \<open>ManagedDnsRecord.Eval\<close> turns the result \<open>(isHealthy, err)\<close> of the health check into
  one of the three calls. The inputs \<open>H\<close>, \<open>U\<close> and \<open>E\<close> of the specification are the
  three shapes of that result.
\<close>

fun Eval :: "bool \<times> go_error \<Rightarrow> State \<Rightarrow> State" where
  "Eval (isHealthy, Some err) s = State_Error s"
| "Eval (True, None) s = State_Healthy s"
| "Eval (False, None) s = State_Unhealthy s"

definition H :: "bool \<times> go_error" where "H = (True, None)"
definition U :: "bool \<times> go_error" where "U = (False, None)"
definition E :: "bool \<times> go_error" where "E = (False, Some ''probe failed'')"

definition feed :: "State \<Rightarrow> (bool \<times> go_error) list \<Rightarrow> State" where
  "feed s inputs = fold Eval inputs s"

section \<open>Package healthcheck: the TCP checker\<close>

text \<open>
  \<open>net.DialTimeout\<close> is the operating system's answer and is taken as an input: a
  connection or none, and an error or none. An error is a chain of wrapped errors that
  ends in a system error number, in the runtime's deadline error or in some other
  error; \<open>errors.Is\<close> walks the chain.
\<close>

datatype net_error =
    Errno nat
  | DeadlineExceeded
  | OtherError string
  | Wrapped string net_error

definition ECONNREFUSED :: net_error where
  "ECONNREFUSED = Errno 111"

fun errors_Is :: "net_error \<Rightarrow> net_error \<Rightarrow> bool" where
  "errors_Is (Wrapped msg inner) target =
     (Wrapped msg inner = target \<or> errors_Is inner target)"
| "errors_Is err target = (err = target)"

type_synonym conn = nat

definition IsHealthy :: "conn option \<times> net_error option \<Rightarrow> bool \<times> net_error option" where
  "IsHealthy dialed =
     (case dialed of (conn, err) \<Rightarrow>
        if err = None \<and> conn \<noteq> None then (True, None)
        else if (case err of None \<Rightarrow> False | Some e \<Rightarrow> errors_Is e ECONNREFUSED)
             then (True, None)
        else (False, err))"

section \<open>Package internal: records and the selector\<close>

text \<open>
  \<open>net.IP\<close> is a byte slice. \<open>net.ParseIP\<close> belongs to Go's library and is a parameter
  of \<open>NewDnsRecord\<close>; \<open>To4\<close> is the library's test for a 4-byte address or a 16-byte
  address with the IPv4-in-IPv6 prefix.
\<close>

type_synonym IP = "8 word list"

definition To4 :: "IP \<Rightarrow> IP option" where
  "To4 ip =
     (if length ip = 4 then Some ip
      else if length ip = 16 \<and> take 10 ip = replicate 10 0 \<and> ip ! 10 = 255 \<and> ip ! 11 = 255
           then Some (drop 12 ip)
      else None)"

record RecordConfig =
  IP :: string
  RecordType :: string
  Prio :: int
  Ttl :: int
  StatusConfig :: StatusConfig

record DnsRecord =
  Priority :: "8 word"
  DnsType :: string
  Ip :: IP
  Ttl :: "16 word"

definition NewDnsRecord :: "(string \<Rightarrow> IP option) \<Rightarrow> RecordConfig \<Rightarrow> string + DnsRecord" where
  "NewDnsRecord ParseIP conf =
     (case ParseIP (IP conf) of
        None \<Rightarrow> Inl (''could not parse '' @ IP conf @ '' as ip address'')
      | Some parsed \<Rightarrow>
          if To4 parsed = None \<and> RecordType conf \<noteq> ''AAAA''
          then Inl ''refusing to use IPv4 address with AAAA record''
          else Inr \<lparr>Priority = word_of_int (Prio conf), DnsType = RecordType conf,
                    Ip = parsed, Ttl = word_of_int (RecordConfig.Ttl conf)\<rparr>)"

text \<open>
  \<open>ManagedDnsRecord\<close> embeds \<open>DnsRecord\<close>. Its \<open>healthCheck\<close> is an interface value
  that neither the selector nor the zone store reads; it is left out. The time of the
  last status change is a number.
\<close>

record ManagedDnsRecord = DnsRecord +
  Hostname :: string
  status :: State
  lastStatusChange :: nat

definition NewManagedDnsRecord :: "string \<Rightarrow> DnsRecord \<Rightarrow> StatusConfig \<Rightarrow> ManagedDnsRecord" where
  "NewManagedDnsRecord hostname record statusOpts =
     \<lparr>Priority = Priority record, DnsType = DnsType record, Ip = Ip record,
      Ttl = DnsRecord.Ttl record,
      Hostname = hostname, status = NewUnknownState statusOpts, lastStatusChange = 0\<rparr>"

definition cmp_Compare :: "'a::linorder \<Rightarrow> 'a \<Rightarrow> int" where
  "cmp_Compare x y = (if x < y then - 1 else if y < x then 1 else 0)"

definition PriorityComparator :: "ManagedDnsRecord \<Rightarrow> ManagedDnsRecord \<Rightarrow> int" where
  "PriorityComparator a b = cmp_Compare (Priority b) (Priority a)"

text \<open>
  \<open>slices.SortFunc\<close> sorts by the comparison function and is not stable: elements
  that compare equal may come out in any order. The model is an insertion sort that
  puts elements that compare equal in the order of a rank \<open>tie\<close>, which is a parameter:
  every choice of \<open>tie\<close> is one order the library may return.
\<close>

fun insertFunc :: "('a \<Rightarrow> nat) \<Rightarrow> ('a \<Rightarrow> 'a \<Rightarrow> int) \<Rightarrow> 'a \<Rightarrow> 'a list \<Rightarrow> 'a list" where
  "insertFunc tie cmp x [] = [x]"
| "insertFunc tie cmp x (y # ys) =
     (if cmp x y < 0 \<or> (cmp x y = 0 \<and> tie x \<le> tie y) then x # y # ys
      else y # insertFunc tie cmp x ys)"

definition SortFunc :: "('a \<Rightarrow> nat) \<Rightarrow> ('a \<Rightarrow> 'a \<Rightarrow> int) \<Rightarrow> 'a list \<Rightarrow> 'a list" where
  "SortFunc tie cmp xs = foldr (insertFunc tie cmp) xs []"

text \<open>
  A Go map with string keys is an association list with distinct keys. The order in
  which \<open>range\<close> visits a map is not specified; the model visits the entries by
  ascending \<open>rank\<close> of their keys, and \<open>rank\<close> is a parameter of every function that
  ranges over a map where the order can matter.
\<close>

definition rangeOrder :: "(string \<Rightarrow> nat) \<Rightarrow> (string \<times> 'v) list \<Rightarrow> (string \<times> 'v) list" where
  "rangeOrder rank m = sort_key (\<lambda>entry. rank (fst entry)) m"

text \<open>\<open>m[k] = append(m[k], v)\<close>, creating the entry when the key is new.\<close>

fun appendTo :: "string \<Rightarrow> 'v \<Rightarrow> (string \<times> 'v list) list \<Rightarrow> (string \<times> 'v list) list" where
  "appendTo k v [] = [(k, [v])]"
| "appendTo k v ((k', vs) # m) =
     (if k = k' then (k', vs @ [v]) # m else (k', vs) # appendTo k v m)"

definition isInitialState :: "ManagedDnsRecord list \<Rightarrow> bool" where
  "isInitialState ips = list_all (\<lambda>ip. Name (status ip) = InitialStateName) ips"

text \<open>
  \<open>filterHealthyIps\<close>; the deferred \<open>updateMetrics\<close> only sets gauges and is left out.
\<close>

definition filterHealthyIps ::
  "(string \<Rightarrow> nat) \<Rightarrow> (ManagedDnsRecord \<Rightarrow> nat) \<Rightarrow> string \<Rightarrow> ManagedDnsRecord list \<Rightarrow>
   ManagedDnsRecord list" where
  "filterHealthyIps rank tie hostname ips =
     (let healthyIps =
            fold (\<lambda>ip m. if Name (status ip) = HealthyStateName
                          then appendTo (DnsType ip) ip m else m) ips []
      in if length healthyIps = 0 then []
         else fold (\<lambda>entry ipsToUpdate.
                      if length (snd entry) > 0
                      then ipsToUpdate @ [hd (SortFunc tie PriorityComparator (snd entry))]
                      else ipsToUpdate)
                   (rangeOrder rank healthyIps) [])"

section \<open>Package unbound: the zone store\<close>

text \<open>
  \<open>Unbound\<close> reaches the file through the interface \<open>UnboundConfWrapper\<close>. Its state is
  modelled as the test double of the package has it: the lines a read returns, the
  error a read returns, the lines last handed to \<open>WriteConf\<close> (none before the first
  write) and the error a write returns.
\<close>

record dummyUnboundFs =
  read :: "string list"
  readErr :: go_error
  written :: "string list option"
  writeErr :: go_error

definition ReadConf :: "dummyUnboundFs \<Rightarrow> string list \<times> go_error" where
  "ReadConf d = (read d, readErr d)"

definition WriteConf :: "dummyUnboundFs \<Rightarrow> string list \<Rightarrow> dummyUnboundFs \<times> go_error" where
  "WriteConf d conf = (d\<lparr>written := Some conf\<rparr>, writeErr d)"

text \<open>\<open>%d\<close> of an unsigned number.\<close>

definition digit :: "nat \<Rightarrow> char" where
  "digit d = ''0123456789'' ! d"

fun decimal :: "nat \<Rightarrow> string" where
  "decimal n = (if n < 10 then [digit n] else decimal (n div 10) @ [digit (n mod 10)])"

declare decimal.simps [simp del]

definition quote :: char where
  "quote = CHR 0x22"

text \<open>
  \<open>recordToUnbound\<close> prints the address with \<open>net.IP.String\<close>, which belongs to Go's
  library and is the parameter \<open>ipString\<close>. \<open>ownedPrefix\<close> is the prefix that
  \<open>UpdateIps\<close> builds for \<open>strings.HasPrefix\<close>.
\<close>

definition recordToUnbound :: "(IP \<Rightarrow> string) \<Rightarrow> string \<Rightarrow> ManagedDnsRecord \<Rightarrow> string" where
  "recordToUnbound ipString hostname record =
     ''local-data: '' @ [quote] @ hostname @ '' '' @ decimal (unat (DnsRecord.Ttl record)) @ '' '' @
     DnsType record @ '' '' @ ipString (Ip record) @ [quote]"

definition ownedPrefix :: "string \<Rightarrow> string" where
  "ownedPrefix dnsRecord = ''local-data: '' @ [quote] @ dnsRecord @ '' ''"

definition removeIndices :: "'a list \<Rightarrow> nat list \<Rightarrow> 'a list" where
  "removeIndices elems indicesToRemove =
     map snd (filter (\<lambda>entry. fst entry \<notin> set indicesToRemove) (enumerate 0 elems))"

text \<open>\<open>slices.Insert\<close> panics when the index is beyond the length of the slice.\<close>

datatype panic = IndexOutOfRange

definition slices_Insert :: "'a list \<Rightarrow> nat \<Rightarrow> 'a list \<Rightarrow> panic + 'a list" where
  "slices_Insert s i v = (if length s < i then Inl IndexOutOfRange else Inr (take i s @ v @ drop i s))"

text \<open>
  The inner loop of the scan: it ranges over \<open>wantedRecords\<close> and stores the index of
  the line under the key that equals the line. \<open>markWantedIn\<close> visits the keys in a
  given order, \<open>markWanted\<close> in the order of the association list; the order makes no
  difference (lemma \<open>markWantedIn_any_order\<close> below).
\<close>

definition markWantedIn ::
  "string list \<Rightarrow> (string \<times> nat option) list \<Rightarrow> nat \<Rightarrow> string \<Rightarrow> (string \<times> nat option) list \<times> bool" where
  "markWantedIn keys wantedRecords index line =
     fold (\<lambda>wantedRecord (wanted, lineContainsWantedRecord).
             if line = wantedRecord then (AList.update line (Some index) wanted, True)
             else (wanted, lineContainsWantedRecord))
          keys (wantedRecords, False)"

definition markWanted ::
  "(string \<times> nat option) list \<Rightarrow> nat \<Rightarrow> string \<Rightarrow> (string \<times> nat option) list \<times> bool" where
  "markWanted wantedRecords index line = markWantedIn (map fst wantedRecords) wantedRecords index line"

text \<open>
  The scan over the lines, from the line at \<open>index\<close> on. A pointer \<open>&index\<close> is
  modelled by the value of \<open>index\<close> in that iteration (each iteration has its own
  variable since Go 1.22, which the package needs for \<open>cmp.Or\<close>).
\<close>

fun scanLines ::
  "string \<Rightarrow> nat \<Rightarrow> string list \<Rightarrow> (string \<times> nat option) list \<times> nat list \<Rightarrow>
   (string \<times> nat option) list \<times> nat list" where
  "scanLines pre index [] state = state"
| "scanLines pre index (line # rest) (wantedRecords, recordsToRemove) =
     scanLines pre (Suc index) rest
       (if prefix pre line
        then (case markWanted wantedRecords index line of
                (wanted, lineContainsWantedRecord) \<Rightarrow>
                  (wanted, if \<not> lineContainsWantedRecord then recordsToRemove @ [index]
                           else recordsToRemove))
        else (wantedRecords, recordsToRemove))"

definition collectMissing :: "(string \<times> nat option) list \<Rightarrow> string list" where
  "collectMissing visited =
     fold (\<lambda>entry missingRecords.
             if snd entry = None then missingRecords @ [fst entry] else missingRecords)
          visited []"

definition lastPresentIndex :: "(string \<times> nat option) list \<Rightarrow> nat" where
  "lastPresentIndex visited =
     fold (\<lambda>entry idx. case snd entry of None \<Rightarrow> idx | Some line \<Rightarrow> line) visited 0"

text \<open>
  \<open>UpdateIps\<close>. \<open>rankMissing\<close> and \<open>rankIdx\<close> are the orders of the two loops that range
  over \<open>wantedRecords\<close> after the scan. The result is a panic, or the pair that the
  function returns together with the state of the store.
\<close>

definition UpdateIps ::
  "(IP \<Rightarrow> string) \<Rightarrow> (string \<Rightarrow> nat) \<Rightarrow> (string \<Rightarrow> nat) \<Rightarrow> dummyUnboundFs \<Rightarrow> string \<Rightarrow>
   ManagedDnsRecord list \<Rightarrow> panic + ((bool \<times> go_error) \<times> dummyUnboundFs)" where
  "UpdateIps ipString rankMissing rankIdx fs dnsRecord records =
     (case ReadConf fs of
        (lines, Some err) \<Rightarrow> Inr ((False, Some err), fs)
      | (lines, None) \<Rightarrow>
          (case scanLines (ownedPrefix dnsRecord) 0 lines
                  (fold (\<lambda>record wanted.
                           AList.update (recordToUnbound ipString dnsRecord record) None wanted)
                        records [], []) of
             (wantedRecords, recordsToRemove) \<Rightarrow>
               (let missingRecords = collectMissing (rangeOrder rankMissing wantedRecords)
                in if length missingRecords = 0 \<and> length recordsToRemove = 0
                   then Inr ((False, None), fs)
                   else
                     (let lines1 = (if length recordsToRemove > 0
                                    then removeIndices lines recordsToRemove else lines)
                      in case (if length missingRecords = length records
                               then Inr (lines1 @ missingRecords)
                               else slices_Insert lines1
                                      (lastPresentIndex (rangeOrder rankIdx wantedRecords))
                                      missingRecords) of
                           Inl p \<Rightarrow> Inl p
                         | Inr lines2 \<Rightarrow>
                             (case WriteConf fs lines2 of
                                (fs', err) \<Rightarrow> Inr ((True, err), fs'))))))"

text \<open>
  The line sequence of the store after a call: the lines handed to \<open>WriteConf\<close> when
  the call wrote, the lines it read otherwise.
\<close>

definition linesAfter :: "dummyUnboundFs \<Rightarrow> string list" where
  "linesAfter fs = (case written fs of None \<Rightarrow> read fs | Some conf \<Rightarrow> conf)"

text \<open>
  The store of the program is \<open>FsImpl\<close>, a file. \<open>ReadConf\<close> reads the whole file,
  applies \<open>strings.TrimSpace\<close> to it and splits it at the line feeds; \<open>WriteConf\<close> joins
  the lines with line feeds. \<open>TrimSpace\<close> is the library function on ASCII text (it also
  trims the multi-byte Unicode spaces, which do not occur below); \<open>Split\<close> and \<open>Join\<close>
  are \<open>strings.Split\<close> and \<open>strings.Join\<close> with the separator \<open>"\n"\<close>. A file is its
  content (\<open>Inr\<close>), or the error of \<open>os.ReadFile\<close> when it cannot be read (\<open>Inl\<close>).
  \<open>FsImpl_store\<close> is the state that the interface shows of a file before a call, and
  \<open>fileAfter\<close> the content of the file after a call whose write succeeded.
\<close>

definition asciiSpace :: "char \<Rightarrow> bool" where
  "asciiSpace c = (c \<in> set [CHR 0x09, CHR 0x0A, CHR 0x0B, CHR 0x0C, CHR 0x0D, CHR 0x20])"

definition TrimSpace :: "string \<Rightarrow> string" where
  "TrimSpace s = rev (dropWhile asciiSpace (rev (dropWhile asciiSpace s)))"

fun Split :: "string \<Rightarrow> string list" where
  "Split [] = [[]]"
| "Split (c # cs) =
     (if c = CHR 0x0A then [] # Split cs
      else (case Split cs of [] \<Rightarrow> [[c]] | l # ls \<Rightarrow> (c # l) # ls))"

fun Join :: "string list \<Rightarrow> string" where
  "Join [] = []"
| "Join [l] = l"
| "Join (l # ls) = l @ [CHR 0x0A] @ Join ls"

definition FsImpl_ReadConf :: "string + string \<Rightarrow> string list \<times> go_error" where
  "FsImpl_ReadConf file =
     (case file of
        Inl err \<Rightarrow> ([], Some (''failed to read zone file: '' @ err))
      | Inr oldContent \<Rightarrow> (Split (TrimSpace oldContent), None))"

definition FsImpl_WriteConf :: "string list \<Rightarrow> string" where
  "FsImpl_WriteConf conf = Join conf"

definition FsImpl_store :: "string + string \<Rightarrow> go_error \<Rightarrow> dummyUnboundFs" where
  "FsImpl_store file werr =
     \<lparr>read = fst (FsImpl_ReadConf file), readErr = snd (FsImpl_ReadConf file),
      written = None, writeErr = werr\<rparr>"

definition fileAfter :: "string \<Rightarrow> dummyUnboundFs \<Rightarrow> string" where
  "fileAfter oldContent fs =
     (case written fs of None \<Rightarrow> oldContent | Some conf \<Rightarrow> FsImpl_WriteConf conf)"

section \<open>Sample values\<close>

text \<open>
  \<open>ParseIP_table\<close> lists the results of \<open>net.ParseIP\<close> on the two literals used in
  the examples: a 16-byte slice, the IPv4 address behind the IPv4-in-IPv6 prefix.
  \<open>dottedQuad\<close> is \<open>net.IP.String\<close> on a 4-byte address. \<open>zoneLine\<close> writes a line of
  the zone file from the text between its quotes.
\<close>

definition ParseIP_table :: "string \<Rightarrow> IP option" where
  "ParseIP_table s =
     (if s = ''192.168.1.1'' then Some [0, 0, 0, 0, 0, 0, 0, 0, 0, 0, 255, 255, 192, 168, 1, 1]
      else if s = ''::1'' then Some [0, 0, 0, 0, 0, 0, 0, 0, 0, 0, 0, 0, 0, 0, 0, 1]
      else None)"

fun dottedQuad :: "IP \<Rightarrow> string" where
  "dottedQuad [] = []"
| "dottedQuad [b] = decimal (unat b)"
| "dottedQuad (b # bs) = decimal (unat b) @ ''.'' @ dottedQuad bs"

definition zoneLine :: "string \<Rightarrow> string" where
  "zoneLine body = ''local-data: '' @ [quote] @ body @ [quote]"

definition managed :: "string \<Rightarrow> nat \<Rightarrow> string \<Rightarrow> IP \<Rightarrow> nat \<Rightarrow> State \<Rightarrow> ManagedDnsRecord" where
  "managed hostname prio dnsType ip ttl st =
     \<lparr>Priority = of_nat prio, DnsType = dnsType, Ip = ip, Ttl = of_nat ttl,
      Hostname = hostname, status = st, lastStatusChange = 0\<rparr>"

text \<open>
  \<open>ipText\<close> is \<open>net.IP.String\<close> on IPv4 addresses and on the address \<open>::1\<close>.
  \<open>ttlDriftFs\<close>, \<open>ttlDriftFixed\<close> and \<open>testRecord\<close> are the store, the expected written
  lines and the record of the package's test "record exists but ttl differs"; the
  argument of \<open>ttlDriftFs\<close> is the error its \<open>WriteConf\<close> returns.
\<close>

definition ipText :: "IP \<Rightarrow> string" where
  "ipText ip =
     (case To4 ip of
        Some v4 \<Rightarrow> dottedQuad v4
      | None \<Rightarrow> if ip = [0, 0, 0, 0, 0, 0, 0, 0, 0, 0, 0, 0, 0, 0, 0, 1] then ''::1'' else [])"

definition ttlDriftFs :: "go_error \<Rightarrow> dummyUnboundFs" where
  "ttlDriftFs werr =
     \<lparr>read = [zoneLine ''test-01.my.tld 60 A 192.168.1.5'',
              zoneLine ''test-01.other.tld 30 A 192.168.1.5''],
      readErr = None, written = None, writeErr = werr\<rparr>"

definition ttlDriftFixed :: "string list" where
  "ttlDriftFixed =
     [zoneLine ''test-01.other.tld 30 A 192.168.1.5'', zoneLine ''test-01.my.tld 30 A 192.168.1.5'']"

definition testRecord :: ManagedDnsRecord where
  "testRecord = managed ''hostname'' 200 ''A'' [192, 168, 1, 5] 30 (Initial 0 [] 0 0)"


section \<open>Properties of the hysteresis states\<close>

lemma feed_Nil: "feed s [] = s"
  by (simp add: feed_def)

lemma feed_Cons: "feed s (x # xs) = feed (Eval x s) xs"
  by (simp add: feed_def)

lemma decrement_pos: "1 \<le> x \<Longrightarrow> decrement x = x - 1"
  by (simp add: decrement_def)

lemma feed_H_Healthy: "Name (feed (Healthy c h u) (replicate k H)) = HealthyStateName"
  by (induction k arbitrary: c) (simp_all add: feed_Nil feed_Cons H_def)

lemma feed_U_Unhealthy: "Name (feed (Unhealthy c h u) (replicate k U)) = UnhealthyStateName"
  by (induction k arbitrary: c) (simp_all add: feed_Nil feed_Cons U_def)

text \<open>
  What the unhealthy state does with a run of \<open>H\<close> inputs: the counter it counts down is
  the one it was given, and a record turns healthy at the input that brings it to zero.
\<close>

lemma Unhealthy_counts_streak:
  "1 \<le> c \<Longrightarrow>
   Name (feed (Unhealthy c h u) (replicate k H)) =
     (if int k < c then UnhealthyStateName else HealthyStateName)"
proof (induction k arbitrary: c)
  case 0
  then show ?case by (simp add: feed_Nil)
next
  case (Suc k)
  show ?case
  proof (cases "c = 1")
    case True
    then show ?thesis
      by (simp add: feed_Cons H_def decrement_pos newHealthy_def feed_H_Healthy [unfolded H_def])
  next
    case False
    with Suc.prems have "1 \<le> c - 1" by simp
    from Suc.IH [OF this] Suc.prems False show ?thesis
      by (simp add: feed_Cons H_def decrement_pos)
  qed
qed

lemma Healthy_counts_streak:
  "1 \<le> c \<Longrightarrow>
   Name (feed (Healthy c h u) (replicate k U)) =
     (if int k < c then HealthyStateName else UnhealthyStateName)"
proof (induction k arbitrary: c)
  case 0
  then show ?case by (simp add: feed_Nil)
next
  case (Suc k)
  show ?case
  proof (cases "c = 1")
    case True
    then show ?thesis
      by (simp add: feed_Cons U_def decrement_pos newUnhealthy_def feed_U_Unhealthy [unfolded U_def])
  next
    case False
    with Suc.prems have "1 \<le> c - 1" by simp
    from Suc.IH [OF this] Suc.prems False show ?thesis
      by (simp add: feed_Cons U_def decrement_pos)
  qed
qed

text \<open>
  After a reset the unhealthy state holds \<open>cfgStreakUntilUnhealthy\<close>, so the number of
  \<open>H\<close> inputs that moves a record from unhealthy to healthy is \<open>unhealthy_streak\<close>,
  whatever \<open>healthy_streak\<close> is.
\<close>

lemma Unhealthy_reset_then_H:
  "1 \<le> u \<Longrightarrow>
   Name (feed (State_Unhealthy (Unhealthy c h u)) (replicate k H)) =
     (if int k < u then UnhealthyStateName else HealthyStateName)"
  by (simp add: Unhealthy_counts_streak)

lemma Healthy_reset_then_U:
  "1 \<le> u \<Longrightarrow>
   Name (feed (State_Healthy (Healthy c h u)) (replicate k U)) =
     (if int k < u then HealthyStateName else UnhealthyStateName)"
  by (simp add: Healthy_counts_streak)

text \<open>
  Claim C1: from the unhealthy state just after a reset, exactly \<open>healthy_streak\<close>
  consecutive \<open>H\<close> inputs are required before the state becomes healthy (and
  symmetrically from healthy with \<open>unhealthy_streak\<close>). The code evaluated with
  \<open>healthy_streak = 5\<close> and \<open>unhealthy_streak = 2\<close>: the record is unhealthy, a \<open>U\<close>
  input resets its counter, and the second \<open>H\<close> input already makes it healthy,
  because the unhealthy state resets its counter to \<open>unhealthy_streak\<close>.
\<close>

theorem C1_unhealthy_leaves_after_unhealthy_streak:
  "feed (newUnhealthy 5 2) [U] = Unhealthy 2 5 2 \<and>
   Name (feed (newUnhealthy 5 2) [U, H]) = UnhealthyStateName \<and>
   Name (feed (newUnhealthy 5 2) [U, H, H]) = HealthyStateName"
  by (simp add: feed_def newUnhealthy_def newHealthy_def U_def H_def decrement_def)

text \<open>
  The initial state never records an input: \<open>lastState\<close> is empty after construction and
  is only assigned inside the branches that test it, so it stays empty, and the counter
  of a fresh record is never reset. A fresh record that only sees \<open>U\<close> inputs therefore
  counts down from \<open>InitialHealthyStreak\<close>.
\<close>

lemma Initial_lastState_stays_empty:
  "Eval x (Initial c [] h u) = Initial c' l' h' u' \<Longrightarrow> l' = []"
proof (cases x)
  case (Pair isHealthy err)
  assume a: "Eval x (Initial c [] h u) = Initial c' l' h' u'"
  show ?thesis
  proof (cases err)
    case None
    with a Pair show ?thesis
      by (cases isHealthy)
         (auto simp: Let_def newHealthy_def newUnhealthy_def HealthyStateName_def
            UnhealthyStateName_def split: if_splits)
  next
    case (Some e)
    with a Pair show ?thesis by simp
  qed
qed

lemma Initial_counts_streak_U:
  "1 \<le> c \<Longrightarrow> l \<noteq> HealthyStateName \<Longrightarrow>
   Name (feed (Initial c l h u) (replicate k U)) =
     (if int k < c then InitialStateName else UnhealthyStateName)"
proof (induction k arbitrary: c)
  case 0
  then show ?case by (simp add: feed_Nil)
next
  case (Suc k)
  show ?case
  proof (cases "c = 1")
    case True
    with Suc.prems show ?thesis
      by (simp add: feed_Cons U_def decrement_pos newUnhealthy_def
          feed_U_Unhealthy [unfolded U_def])
  next
    case False
    with Suc.prems have "1 \<le> c - 1" by simp
    from Suc.IH [OF this Suc.prems(2)] Suc.prems False show ?thesis
      by (simp add: feed_Cons U_def decrement_pos)
  qed
qed

lemma fresh_record_only_U:
  "1 \<le> InitialHealthyStreak opts \<Longrightarrow>
   Name (feed (NewUnknownState opts) (replicate k U)) =
     (if int k < InitialHealthyStreak opts then InitialStateName else UnhealthyStateName)"
  by (simp add: NewUnknownState_def Initial_counts_streak_U HealthyStateName_def)

text \<open>
  Claim C5: in the initial state an \<open>H\<close> input that follows a \<open>U\<close> input first resets
  the counter to \<open>initial_healthy_streak\<close>, then decrements. The code evaluated with
  \<open>initial_healthy_streak = 3\<close>: \<open>lastState\<close> is never set by the constructor or by the
  first input, so after \<open>U\<close> then \<open>H\<close> the counter is 1 (no reset happened), and a
  second \<open>H\<close> leaves the initial state, where a reset to 3 would have kept it there.
\<close>

theorem C5_initial_never_resets:
  "feed (NewUnknownState \<lparr>HealthyStreak = 5, UnhealthyStreak = 5,
        InitialHealthyStreak = 3, InitialUnhealthyStreak = 1\<rparr>) [U, H] = Initial 1 '''' 5 5 \<and>
   Name (feed (NewUnknownState \<lparr>HealthyStreak = 5, UnhealthyStreak = 5,
        InitialHealthyStreak = 3, InitialUnhealthyStreak = 1\<rparr>) [U, H, H]) = HealthyStateName"
  by (simp add: feed_def NewUnknownState_def newHealthy_def U_def H_def decrement_def
      UnhealthyStateName_def HealthyStateName_def)

text \<open>
  Claim C6: a fresh record that only receives \<open>U\<close> inputs is unhealthy after exactly
  \<open>initial_unhealthy_streak\<close> inputs. The code evaluated with the default thresholds
  (5, 5, 2, 1): after one \<open>U\<close> input the record is still initial, and it becomes
  unhealthy at the second, since the constructor starts the counter at
  \<open>InitialHealthyStreak\<close> and never reads \<open>InitialUnhealthyStreak\<close>.
\<close>

theorem C6_all_unhealthy_counts_initial_healthy_streak:
  "Name (feed (NewUnknownState \<lparr>HealthyStreak = 5, UnhealthyStreak = 5,
        InitialHealthyStreak = 2, InitialUnhealthyStreak = 1\<rparr>) [U]) = InitialStateName \<and>
   Name (feed (NewUnknownState \<lparr>HealthyStreak = 5, UnhealthyStreak = 5,
        InitialHealthyStreak = 2, InitialUnhealthyStreak = 1\<rparr>) [U, U]) = UnhealthyStateName"
  by (simp add: feed_def NewUnknownState_def newUnhealthy_def U_def decrement_def
      UnhealthyStateName_def HealthyStateName_def)

section \<open>Properties of the TCP checker\<close>

text \<open>
  Claim C8, as stated: a connect that merely fails or times out gives the unhealthy
  result \<open>(false, no error)\<close>. A dial that ran into its deadline returns an error that
  does not wrap \<open>ECONNREFUSED\<close>, and \<open>IsHealthy\<close> hands that error on.
\<close>

theorem C8_timeout_counterexample:
  "IsHealthy (None, Some (Wrapped ''dial tcp 10.0.0.1:80'' DeadlineExceeded)) \<noteq> (False, None)"
  by (simp add: IsHealthy_def ECONNREFUSED_def)

text \<open>
  Claim C8, amended: \<open>IsHealthy\<close> returns \<open>(true, nil)\<close> when the dial gives a
  connection and no error, and when the dial's error is or wraps \<open>ECONNREFUSED\<close>; for
  every other dial error, a timeout included, it returns \<open>false\<close> together with that
  error; \<open>(false, nil)\<close> is returned only for a dial that gives neither a connection nor
  an error.
\<close>

theorem C8_IsHealthy_results:
  "(conn \<noteq> None \<longrightarrow> IsHealthy (conn, None) = (True, None)) \<and>
   (errors_Is e ECONNREFUSED \<longrightarrow> IsHealthy (conn, Some e) = (True, None)) \<and>
   (\<not> errors_Is e ECONNREFUSED \<longrightarrow> IsHealthy (conn, Some e) = (False, Some e)) \<and>
   (IsHealthy (conn, err) = (False, None) \<longrightarrow> conn = None \<and> err = None)"
  by (cases err) (auto simp: IsHealthy_def split: if_splits)

theorem C8_IsHealthy_results_witness:
  "IsHealthy (Some 7, None) = (True, None) \<and>
   IsHealthy (None, Some (Wrapped ''dial tcp'' (Wrapped ''connect'' (Errno 111)))) = (True, None) \<and>
   IsHealthy (None, Some (Wrapped ''dial tcp'' DeadlineExceeded)) =
     (False, Some (Wrapped ''dial tcp'' DeadlineExceeded)) \<and>
   IsHealthy (None, None) = (False, None)"
  using C8_IsHealthy_results [of "Some 7" "Wrapped ''dial tcp'' (Wrapped ''connect'' (Errno 111))" None]
        C8_IsHealthy_results [of None "Wrapped ''dial tcp'' DeadlineExceeded" None]
  by (simp add: ECONNREFUSED_def IsHealthy_def)

section \<open>Properties of record construction\<close>

lemma NewDnsRecord_accepts_To4:
  "ParseIP (IP conf) = Some parsed \<Longrightarrow> To4 parsed \<noteq> None \<Longrightarrow>
   NewDnsRecord ParseIP conf =
     Inr \<lparr>Priority = word_of_int (Prio conf), DnsType = RecordType conf,
          Ip = parsed, Ttl = word_of_int (RecordConfig.Ttl conf)\<rparr>"
  by (simp add: NewDnsRecord_def)

lemma NewDnsRecord_accepts_AAAA:
  "ParseIP (IP conf) = Some parsed \<Longrightarrow> RecordType conf = ''AAAA'' \<Longrightarrow>
   NewDnsRecord ParseIP conf =
     Inr \<lparr>Priority = word_of_int (Prio conf), DnsType = RecordType conf,
          Ip = parsed, Ttl = word_of_int (RecordConfig.Ttl conf)\<rparr>"
  by (simp add: NewDnsRecord_def)

lemma NewDnsRecord_rejects_IPv6_unless_AAAA:
  "ParseIP (IP conf) = Some parsed \<Longrightarrow> To4 parsed = None \<Longrightarrow> RecordType conf \<noteq> ''AAAA'' \<Longrightarrow>
   NewDnsRecord ParseIP conf = Inl ''refusing to use IPv4 address with AAAA record''"
  by (simp add: NewDnsRecord_def)

text \<open>
  Claim C3: constructing a record fails when the address is an IPv4 literal and the
  type is AAAA. The code evaluated on the IPv4 literal 192.168.1.1 with type AAAA:
  construction succeeds. The only check rejects an address for which \<open>To4\<close> is nil (an
  IPv6 address) under a type other than AAAA, with a message that speaks of the
  opposite pairing.
\<close>

theorem C3_IPv4_with_AAAA_accepted:
  "NewDnsRecord ParseIP_table
     \<lparr>IP = ''192.168.1.1'', RecordType = ''AAAA'', Prio = 200, Ttl = 30,
      StatusConfig = \<lparr>HealthyStreak = 5, UnhealthyStreak = 5,
                      InitialHealthyStreak = 2, InitialUnhealthyStreak = 1\<rparr>\<rparr> =
   Inr \<lparr>Priority = 200, DnsType = ''AAAA'',
        Ip = [0, 0, 0, 0, 0, 0, 0, 0, 0, 0, 255, 255, 192, 168, 1, 1], Ttl = 30\<rparr>"
  by (simp add: NewDnsRecord_def ParseIP_table_def To4_def)

section \<open>Properties of the selector\<close>

lemma map_of_appendTo:
  "map_of (appendTo k v m) = (map_of m)(k \<mapsto> (case map_of m k of None \<Rightarrow> [v] | Some vs \<Rightarrow> vs @ [v]))"
  by (induction m) (auto simp: fun_eq_iff)

lemma map_fst_appendTo:
  "map fst (appendTo k v m) = (if k \<in> set (map fst m) then map fst m else map fst m @ [k])"
  by (induction m) (force simp: image_iff)+

lemma keys_appendTo: "fst ` set (appendTo k v m) = insert k (fst ` set m)"
proof -
  have "set (map fst (appendTo k v m)) = insert k (set (map fst m))"
    by (simp add: map_fst_appendTo insert_absorb)
  then show ?thesis by simp
qed

lemma distinct_appendTo: "distinct (map fst m) \<Longrightarrow> distinct (map fst (appendTo k v m))"
  by (simp add: map_fst_appendTo)

lemma healthyIps_fold:
  fixes ips :: "ManagedDnsRecord list"
  shows "distinct (map fst m0) \<Longrightarrow>
   distinct (map fst (fold (\<lambda>ip m. if Name (status ip) = HealthyStateName
                          then appendTo (DnsType ip) ip m else m) ips m0)) \<and>
   map_of (fold (\<lambda>ip m. if Name (status ip) = HealthyStateName
                          then appendTo (DnsType ip) ip m else m) ips m0) k =
     (if filter (\<lambda>r. Name (status r) = HealthyStateName \<and> DnsType r = k) ips = [] then map_of m0 k
      else Some ((case map_of m0 k of None \<Rightarrow> [] | Some b \<Rightarrow> b) @
                 filter (\<lambda>r. Name (status r) = HealthyStateName \<and> DnsType r = k) ips))"
proof (induction ips arbitrary: m0)
  case Nil
  then show ?case by simp
next
  case (Cons ip ips)
  show ?case
  proof (cases "Name (status ip) = HealthyStateName")
    case False
    with Cons.IH [OF Cons.prems] show ?thesis by simp
  next
    case True
    have d: "distinct (map fst (appendTo (DnsType ip) ip m0))"
      using Cons.prems by (rule distinct_appendTo)
    from Cons.IH [OF d] True show ?thesis
      by (auto simp: map_of_appendTo split: option.splits)
  qed
qed

lemma set_insertFunc: "set (insertFunc tie cmp x ys) = insert x (set ys)"
  by (induction ys) auto

lemma set_SortFunc: "set (SortFunc tie cmp xs) = set xs"
  by (induction xs) (auto simp: SortFunc_def set_insertFunc)

lemma SortFunc_Cons: "SortFunc tie cmp (x # xs) = insertFunc tie cmp x (SortFunc tie cmp xs)"
  by (simp add: SortFunc_def)

lemma SortFunc_Nil_iff: "SortFunc tie cmp xs = [] \<longleftrightarrow> xs = []"
  using set_SortFunc [of tie cmp xs] by (metis set_empty)

lemma hd_insertFunc:
  "hd (insertFunc tie cmp x ys) =
     (if ys = [] \<or> cmp x (hd ys) < 0 \<or> (cmp x (hd ys) = 0 \<and> tie x \<le> tie (hd ys)) then x else hd ys)"
  by (cases ys) auto

lemma hd_SortFunc_in: "xs \<noteq> [] \<Longrightarrow> hd (SortFunc tie cmp xs) \<in> set xs"
  using set_SortFunc [of tie cmp xs] SortFunc_Nil_iff [of tie cmp xs] hd_in_set by blast

lemma PriorityComparator_less: "PriorityComparator a b < 0 \<longleftrightarrow> Priority b < Priority a"
  by (simp add: PriorityComparator_def cmp_Compare_def)

lemma PriorityComparator_eq: "PriorityComparator a b = 0 \<longleftrightarrow> Priority a = Priority b"
  by (auto simp: PriorityComparator_def cmp_Compare_def)

lemma hd_SortFunc_max:
  "y \<in> set xs \<Longrightarrow> Priority y \<le> Priority (hd (SortFunc tie PriorityComparator xs))"
proof (induction xs arbitrary: y)
  case Nil
  then show ?case by simp
next
  case (Cons x xs)
  show ?case
  proof (cases "xs = []")
    case True
    with Cons.prems show ?thesis by (simp add: SortFunc_def)
  next
    case False
    define h where "h = hd (SortFunc tie PriorityComparator xs)"
    have ne: "SortFunc tie PriorityComparator xs \<noteq> []"
      using False by (simp add: SortFunc_Nil_iff)
    have below: "\<And>z. z \<in> set xs \<Longrightarrow> Priority z \<le> Priority h"
      unfolding h_def by (rule Cons.IH)
    have hd_eq: "hd (SortFunc tie PriorityComparator (x # xs)) =
          (if Priority h < Priority x \<or> (Priority x = Priority h \<and> tie x \<le> tie h) then x else h)"
      using ne by (simp add: SortFunc_Cons hd_insertFunc h_def PriorityComparator_less
          PriorityComparator_eq)
    show ?thesis
    proof (cases "y = x")
      case True
      then show ?thesis by (auto simp: hd_eq)
    next
      case False
      with Cons.prems have "y \<in> set xs" by simp
      from below [OF this] show ?thesis by (auto simp: hd_eq)
    qed
  qed
qed

lemma collect_fold:
  "fold (\<lambda>entry acc. if length (snd entry) > 0 then acc @ [g (snd entry)] else acc) es acc0 =
   acc0 @ map (\<lambda>e. g (snd e)) (filter (\<lambda>e. snd e \<noteq> []) es)"
  by (induction es arbitrary: acc0) auto

lemma set_rangeOrder: "set (rangeOrder rank m) = set m"
  by (simp add: rangeOrder_def)

lemma mset_rangeOrder: "mset (rangeOrder rank m) = mset m"
  by (simp add: rangeOrder_def)

lemma distinct_keys_rangeOrder: "distinct (map fst (rangeOrder rank m)) = distinct (map fst m)"
proof -
  have "mset (map fst (rangeOrder rank m)) = mset (map fst m)"
    by (simp add: mset_rangeOrder)
  then show ?thesis by (rule mset_eq_imp_distinct_iff)
qed


lemma count_distinct_key:
  "distinct (map fst es) \<Longrightarrow>
   length (filter (\<lambda>e. fst e = k) es) = (if k \<in> fst ` set es then 1 else 0)"
  by (induction es) (auto simp: image_iff)

lemma healthyIps_entries:
  fixes ips :: "ManagedDnsRecord list"
  assumes "m = fold (\<lambda>ip m. if Name (status ip) = HealthyStateName
                          then appendTo (DnsType ip) ip m else m) ips []"
  shows "distinct (map fst m)"
    and "(k, b) \<in> set m \<longleftrightarrow>
           b = filter (\<lambda>r. Name (status r) = HealthyStateName \<and> DnsType r = k) ips \<and> b \<noteq> []"
proof -
  have d0: "distinct (map fst ([] :: (string \<times> ManagedDnsRecord list) list))" by simp
  show d: "distinct (map fst m)"
    unfolding assms using healthyIps_fold [OF d0, of ips k] by simp
  have "map_of m k =
      (if filter (\<lambda>r. Name (status r) = HealthyStateName \<and> DnsType r = k) ips = [] then None
       else Some (filter (\<lambda>r. Name (status r) = HealthyStateName \<and> DnsType r = k) ips))"
    unfolding assms using healthyIps_fold [OF d0, of ips k] by simp
  then show "(k, b) \<in> set m \<longleftrightarrow>
           b = filter (\<lambda>r. Name (status r) = HealthyStateName \<and> DnsType r = k) ips \<and> b \<noteq> []"
    using map_of_eq_Some_iff [OF d, of k b] by (auto split: if_splits)
qed

lemma filterHealthyIps_eq:
  "filterHealthyIps rank tie hostname ips =
     map (\<lambda>e. hd (SortFunc tie PriorityComparator (snd e)))
       (rangeOrder rank
          (fold (\<lambda>ip m. if Name (status ip) = HealthyStateName
                          then appendTo (DnsType ip) ip m else m) ips []))"
proof -
  define m where "m = fold (\<lambda>ip m. if Name (status ip) = HealthyStateName
                          then appendTo (DnsType ip) ip m else m) ips []"
  have ne: "\<And>e. e \<in> set m \<Longrightarrow> snd e \<noteq> []"
    using healthyIps_entries(2) [OF m_def] by (metis prod.collapse)
  have "filter (\<lambda>e. snd e \<noteq> []) (rangeOrder rank m) = rangeOrder rank m"
    using ne by (simp add: set_rangeOrder)
  with collect_fold [of "\<lambda>b. hd (SortFunc tie PriorityComparator b)" "rangeOrder rank m" "[]"]
  have "fold (\<lambda>entry ipsToUpdate.
                      if length (snd entry) > 0
                      then ipsToUpdate @ [hd (SortFunc tie PriorityComparator (snd entry))]
                      else ipsToUpdate) (rangeOrder rank m) [] =
             map (\<lambda>e. hd (SortFunc tie PriorityComparator (snd e))) (rangeOrder rank m)"
    by simp
  moreover have "m = [] \<Longrightarrow> rangeOrder rank m = []"
    by (simp add: rangeOrder_def)
  ultimately show ?thesis
    unfolding filterHealthyIps_def m_def [symmetric] by (auto simp: Let_def)
qed

text \<open>
  Claim C7: whatever order the map is ranged over and whatever order the sort gives to
  records of equal priority, every record that \<open>filterHealthyIps\<close> returns is one of
  the given records, is healthy and has the greatest priority among the healthy records
  of its type; for every type the result holds exactly one record when some healthy
  record has that type and none otherwise; and the result is empty when no record is
  healthy.
\<close>

theorem C7_selector:
  "(\<forall>r \<in> set (filterHealthyIps rank tie hostname ips).
      r \<in> set ips \<and> Name (status r) = HealthyStateName \<and>
      (\<forall>r' \<in> set ips. Name (status r') = HealthyStateName \<and> DnsType r' = DnsType r \<longrightarrow>
          Priority r' \<le> Priority r)) \<and>
   (\<forall>family.
      length (filter (\<lambda>r. DnsType r = family) (filterHealthyIps rank tie hostname ips)) =
        (if \<exists>r \<in> set ips. Name (status r) = HealthyStateName \<and> DnsType r = family then 1 else 0)) \<and>
   ((\<forall>r \<in> set ips. Name (status r) \<noteq> HealthyStateName) \<longrightarrow>
      filterHealthyIps rank tie hostname ips = [])"
proof -
  define m where "m = fold (\<lambda>ip m. if Name (status ip) = HealthyStateName
                          then appendTo (DnsType ip) ip m else m) ips []"
  define top where "top = (\<lambda>e :: string \<times> ManagedDnsRecord list. hd (SortFunc tie PriorityComparator (snd e)))"
  define es where "es = rangeOrder rank m"
  have res: "filterHealthyIps rank tie hostname ips = map top es"
    by (simp add: filterHealthyIps_eq m_def top_def es_def)
  have dist: "distinct (map fst es)"
    using healthyIps_entries(1) [OF m_def] by (simp add: es_def distinct_keys_rangeOrder)
  have entry: "\<And>k b. (k, b) \<in> set es \<longleftrightarrow>
        b = filter (\<lambda>r. Name (status r) = HealthyStateName \<and> DnsType r = k) ips \<and> b \<noteq> []"
    using healthyIps_entries(2) [OF m_def] by (simp add: es_def set_rangeOrder)
  have entry_eq: "b = filter (\<lambda>r. Name (status r) = HealthyStateName \<and> DnsType r = k) ips"
    if "(k, b) \<in> set es" for k b
    using that entry by blast
  have entry_ne: "b \<noteq> []" if "(k, b) \<in> set es" for k b
    using that entry by blast
  have top_in: "top e \<in> set (snd e)" if "e \<in> set es" for e
  proof -
    from that have "(fst e, snd e) \<in> set es" by simp
    then have "snd e \<noteq> []" by (rule entry_ne)
    then show ?thesis unfolding top_def by (rule hd_SortFunc_in)
  qed
  have top_props: "top e \<in> set ips \<and> Name (status (top e)) = HealthyStateName \<and>
        DnsType (top e) = fst e" if "e \<in> set es" for e
  proof -
    from that have "(fst e, snd e) \<in> set es" by simp
    then have "snd e = filter (\<lambda>r. Name (status r) = HealthyStateName \<and> DnsType r = fst e) ips"
      by (rule entry_eq)
    with top_in [OF that]
    have "top e \<in> set (filter (\<lambda>r. Name (status r) = HealthyStateName \<and> DnsType r = fst e) ips)"
      by simp
    then show ?thesis by simp
  qed
  have top_max: "Priority r' \<le> Priority (top e)"
    if "e \<in> set es" "r' \<in> set ips" "Name (status r') = HealthyStateName" "DnsType r' = fst e"
    for e r'
  proof -
    from that(1) have "(fst e, snd e) \<in> set es" by simp
    then have "snd e = filter (\<lambda>r. Name (status r) = HealthyStateName \<and> DnsType r = fst e) ips"
      by (rule entry_eq)
    with that have "r' \<in> set (snd e)" by simp
    then show ?thesis unfolding top_def by (rule hd_SortFunc_max)
  qed
  have part1: "\<forall>r \<in> set (filterHealthyIps rank tie hostname ips).
      r \<in> set ips \<and> Name (status r) = HealthyStateName \<and>
      (\<forall>r' \<in> set ips. Name (status r') = HealthyStateName \<and> DnsType r' = DnsType r \<longrightarrow>
          Priority r' \<le> Priority r)"
    unfolding res using top_props top_max by auto
  have keys: "family \<in> fst ` set es \<longleftrightarrow>
        (\<exists>r \<in> set ips. Name (status r) = HealthyStateName \<and> DnsType r = family)" for family
  proof -
    have "family \<in> fst ` set es \<longleftrightarrow> (\<exists>b. (family, b) \<in> set es)"
      by (force simp: image_iff)
    also have "\<dots> \<longleftrightarrow>
        filter (\<lambda>r. Name (status r) = HealthyStateName \<and> DnsType r = family) ips \<noteq> []"
      by (simp add: entry)
    also have "\<dots> \<longleftrightarrow> (\<exists>r \<in> set ips. Name (status r) = HealthyStateName \<and> DnsType r = family)"
      by (simp add: filter_empty_conv)
    finally show ?thesis .
  qed
  have part2: "length (filter (\<lambda>r. DnsType r = family) (filterHealthyIps rank tie hostname ips)) =
        (if \<exists>r \<in> set ips. Name (status r) = HealthyStateName \<and> DnsType r = family then 1 else 0)"
    for family
  proof -
    have "filter (\<lambda>e. DnsType (top e) = family) es = filter (\<lambda>e. fst e = family) es"
      using top_props by (intro filter_cong) auto
    then have "length (filter (\<lambda>r. DnsType r = family) (map top es)) =
        length (filter (\<lambda>e. fst e = family) es)"
      by (simp add: filter_map comp_def)
    also have "\<dots> = (if family \<in> fst ` set es then 1 else 0)"
      using dist by (rule count_distinct_key)
    finally show ?thesis by (simp add: res keys)
  qed
  have part3: "(\<forall>r \<in> set ips. Name (status r) \<noteq> HealthyStateName) \<longrightarrow>
      filterHealthyIps rank tie hostname ips = []"
    using part1 by (cases "filterHealthyIps rank tie hostname ips") auto
  from part1 part2 part3 show ?thesis by blast
qed

theorem C7_selector_witness:
  "filterHealthyIps (\<lambda>k. length k) (\<lambda>r. 0) ''a.example''
     [managed ''a.example'' 100 ''A'' [10, 0, 0, 2] 30 (Healthy 5 5 5),
      managed ''a.example'' 200 ''A'' [10, 0, 0, 1] 30 (Healthy 5 5 5),
      managed ''a.example'' 250 ''A'' [10, 0, 0, 3] 30 (Unhealthy 5 5 5),
      managed ''a.example'' 50 ''AAAA'' [0, 0, 0, 0, 0, 0, 0, 0, 0, 0, 0, 0, 0, 0, 0, 1] 30 (Initial 2 [] 5 5)] =
   [managed ''a.example'' 200 ''A'' [10, 0, 0, 1] 30 (Healthy 5 5 5)]"
  using C7_selector [of "\<lambda>k. length k" "\<lambda>r. 0" "''a.example''"
     "[managed ''a.example'' 100 ''A'' [10, 0, 0, 2] 30 (Healthy 5 5 5),
      managed ''a.example'' 200 ''A'' [10, 0, 0, 1] 30 (Healthy 5 5 5),
      managed ''a.example'' 250 ''A'' [10, 0, 0, 3] 30 (Unhealthy 5 5 5),
      managed ''a.example'' 50 ''AAAA'' [0, 0, 0, 0, 0, 0, 0, 0, 0, 0, 0, 0, 0, 0, 0, 1] 30 (Initial 2 [] 5 5)]"]
  by (simp add: filterHealthyIps_def managed_def HealthyStateName_def UnhealthyStateName_def
      InitialStateName_def rangeOrder_def SortFunc_def PriorityComparator_def cmp_Compare_def)

section \<open>Properties of the zone store\<close>

lemma prefix_recordToUnbound:
  "prefix (ownedPrefix hostname) (recordToUnbound ipString hostname record)"
  by (simp add: ownedPrefix_def recordToUnbound_def)

lemma set_update_subset: "set (AList.update k v al) \<subseteq> insert (k, v) (set al)"
  by (induction al) auto

lemma wanted_fold:
  "distinct (map fst acc) \<Longrightarrow> \<forall>e \<in> set acc. snd e = None \<Longrightarrow>
   distinct (map fst (fold (\<lambda>record wanted. AList.update (f record) None wanted) records acc)) \<and>
   fst ` set (fold (\<lambda>record wanted. AList.update (f record) None wanted) records acc) =
     fst ` set acc \<union> f ` set records \<and>
   (\<forall>e \<in> set (fold (\<lambda>record wanted. AList.update (f record) None wanted) records acc).
      snd e = None)"
proof (induction records arbitrary: acc)
  case Nil
  then show ?case by simp
next
  case (Cons r records)
  have d: "distinct (map fst (AList.update (f r) None acc))"
    using Cons.prems(1) by (simp add: distinct_update)
  have n: "\<forall>e \<in> set (AList.update (f r) None acc). snd e = None"
    using Cons.prems(2) set_update_subset [of "f r" None acc] by auto
  from Cons.IH [OF d n] show ?case
    by (auto simp: dom_update)
qed

lemma markWantedIn_fold:
  "fold (\<lambda>wantedRecord (wanted, lineContainsWantedRecord).
             if line = wantedRecord then (AList.update line (Some index) wanted, True)
             else (wanted, lineContainsWantedRecord)) keys (w, found) =
   (if line \<in> set keys then (AList.update line (Some index) w, True) else (w, found))"
  by (induction keys arbitrary: w found) auto

lemma markWantedIn_eq:
  "markWantedIn keys w index line =
     (if line \<in> set keys then (AList.update line (Some index) w, True) else (w, False))"
  by (simp add: markWantedIn_def markWantedIn_fold)

lemma markWantedIn_any_order:
  "set keys = set keys' \<Longrightarrow> markWantedIn keys w index line = markWantedIn keys' w index line"
  by (simp add: markWantedIn_eq)

lemma markWanted_eq:
  "markWanted w index line =
     (if line \<in> fst ` set w then (AList.update line (Some index) w, True) else (w, False))"
  by (simp add: markWanted_def markWantedIn_eq)

lemma scanLines_keys:
  "map fst (fst (scanLines p i ls (w, rm))) = map fst w"
  by (induction ls arbitrary: i w rm) (auto simp: markWanted_eq update_keys)

lemma scanLines_None:
  "map_of (fst (scanLines p i ls (w, rm))) k = Some None \<longleftrightarrow>
     map_of w k = Some None \<and> \<not> (prefix p k \<and> k \<in> set ls)"
proof (induction ls arbitrary: i w rm)
  case Nil
  then show ?case by simp
next
  case (Cons l ls)
  show ?case
  proof (cases "prefix p l \<and> l \<in> fst ` set w")
    case True
    then show ?thesis
      using Cons.IH [of "Suc i" "AList.update l (Some i) w" rm]
      by (auto simp: markWanted_eq update_conv')
  next
    case False
    have "k = l \<Longrightarrow> prefix p l \<Longrightarrow> map_of w k \<noteq> Some None"
      using False by (metis map_of_SomeD fst_conv image_eqI)
    then show ?thesis
      using False Cons.IH [of "Suc i" w rm] Cons.IH [of "Suc i" w "rm @ [i]"]
      by (auto simp: markWanted_eq)
  qed
qed

lemma scanLines_remove:
  "snd (scanLines p i ls (w, rm)) =
     rm @ map fst (filter (\<lambda>e. prefix p (snd e) \<and> snd e \<notin> fst ` set w) (enumerate i ls))"
proof (induction ls arbitrary: i w rm)
  case Nil
  then show ?case by simp
next
  case (Cons l ls)
  show ?case
  proof (cases "prefix p l \<and> l \<in> fst ` set w")
    case True
    then have keys: "fst ` set (AList.update l (Some i) w) = fst ` set w"
      by (auto simp: dom_update)
    from True show ?thesis
      using Cons.IH [of "Suc i" "AList.update l (Some i) w" rm]
      by (simp add: markWanted_eq keys)
  next
    case False
    then show ?thesis
      using Cons.IH [of "Suc i" w rm] Cons.IH [of "Suc i" w "rm @ [i]"]
      by (auto simp: markWanted_eq)
  qed
qed

lemma removeIndices_marked:
  "removeIndices ls (map fst (filter (\<lambda>e. Q (snd e)) (enumerate 0 ls))) = filter (\<lambda>l. \<not> Q l) ls"
proof -
  have inj: "inj_on fst (set (enumerate 0 ls))"
    using distinct_map [of fst "enumerate 0 ls"] by simp
  have "filter (\<lambda>e. fst e \<notin> set (map fst (filter (\<lambda>e. Q (snd e)) (enumerate 0 ls)))) (enumerate 0 ls) =
        filter (\<lambda>e. \<not> Q (snd e)) (enumerate 0 ls)"
  proof (intro filter_cong refl)
    fix e assume e: "e \<in> set (enumerate 0 ls)"
    show "(fst e \<notin> set (map fst (filter (\<lambda>e. Q (snd e)) (enumerate 0 ls)))) = (\<not> Q (snd e))"
    proof
      assume a: "fst e \<notin> set (map fst (filter (\<lambda>e. Q (snd e)) (enumerate 0 ls)))"
      show "\<not> Q (snd e)"
      proof
        assume "Q (snd e)"
        with e have "e \<in> set (filter (\<lambda>e. Q (snd e)) (enumerate 0 ls))" by simp
        then have "fst e \<in> set (map fst (filter (\<lambda>e. Q (snd e)) (enumerate 0 ls)))"
          by (simp only: set_map image_eqI)
        with a show False by simp
      qed
    next
      assume nq: "\<not> Q (snd e)"
      show "fst e \<notin> set (map fst (filter (\<lambda>e. Q (snd e)) (enumerate 0 ls)))"
      proof
        assume "fst e \<in> set (map fst (filter (\<lambda>e. Q (snd e)) (enumerate 0 ls)))"
        then obtain e' where e': "e' \<in> set (enumerate 0 ls)" "Q (snd e')" "fst e' = fst e"
          by auto
        with inj e have "e' = e" by (simp add: inj_on_def)
        with e' nq show False by simp
      qed
    qed
  qed
  then have "removeIndices ls (map fst (filter (\<lambda>e. Q (snd e)) (enumerate 0 ls))) =
             map snd (filter (\<lambda>e. \<not> Q (snd e)) (enumerate 0 ls))"
    by (simp add: removeIndices_def)
  also have "\<dots> = filter (\<lambda>l. \<not> Q l) (map snd (enumerate 0 ls))"
    by (simp only: filter_map comp_def)
  finally show ?thesis by simp
qed

lemma collectMissing_fold:
  "fold (\<lambda>entry missingRecords.
             if snd entry = None then missingRecords @ [fst entry] else missingRecords) es acc =
   acc @ map fst (filter (\<lambda>e. snd e = None) es)"
  by (induction es arbitrary: acc) auto

lemma collectMissing_eq:
  "collectMissing es = map fst (filter (\<lambda>e. snd e = None) es)"
  by (simp add: collectMissing_def collectMissing_fold)


lemma marked_Nil_iff:
  "map fst (filter (\<lambda>e. Q (snd e)) (enumerate 0 ls)) = [] \<longleftrightarrow> filter (\<lambda>l. \<not> Q l) ls = ls"
proof -
  have "set ls = snd ` set (enumerate 0 ls)"
    using map_snd_enumerate [of 0 ls] by (metis set_map)
  then show ?thesis
    by (auto simp: filter_empty_conv filter_id_conv)
qed

lemma UpdateIps_read_error:
  "readErr fs = Some err \<Longrightarrow>
   UpdateIps ipString rankMissing rankIdx fs dnsRecord records = Inr ((False, Some err), fs)"
  by (simp add: UpdateIps_def ReadConf_def)

lemma UpdateIps_result:
  fixes ipString :: "IP \<Rightarrow> string" and dnsRecord :: string
    and records :: "ManagedDnsRecord list" and fs :: dummyUnboundFs
  assumes rd: "readErr fs = None"
  defines "K \<equiv> recordToUnbound ipString dnsRecord ` set records"
  defines "kept \<equiv> filter (\<lambda>l. \<not> (prefix (ownedPrefix dnsRecord) l \<and> l \<notin> K)) (read fs)"
  shows "\<exists>missing. distinct missing \<and> set missing = K - set (read fs) \<and>
          (if missing = [] \<and> kept = read fs
           then UpdateIps ipString rankMissing rankIdx fs dnsRecord records = Inr ((False, None), fs)
           else UpdateIps ipString rankMissing rankIdx fs dnsRecord records = Inl IndexOutOfRange \<and>
                  length missing \<noteq> length records \<or>
                (\<exists>i \<le> length kept.
                   (length missing = length records \<longrightarrow> i = length kept) \<and>
                   UpdateIps ipString rankMissing rankIdx fs dnsRecord records =
                     Inr ((True, writeErr fs),
                          fs\<lparr>written := Some (take i kept @ missing @ drop i kept)\<rparr>)))"
proof -
  define p where "p = ownedPrefix dnsRecord"
  define W0 :: "(string \<times> nat option) list" where "W0 = fold (\<lambda>record wanted.
       AList.update (recordToUnbound ipString dnsRecord record) None wanted) records []"
  define W where "W = fst (scanLines p 0 (read fs) (W0, []))"
  define RM where "RM = snd (scanLines p 0 (read fs) (W0, []))"
  define missing where "missing = collectMissing (rangeOrder rankMissing W)"
  have sc: "scanLines p 0 (read fs) (W0, []) = (W, RM)"
    by (simp add: W_def RM_def)
  have W0: "distinct (map fst W0)" "fst ` set W0 = K" "\<forall>e \<in> set W0. snd e = None"
    using wanted_fold [of "[] :: (string \<times> nat option) list"
        "recordToUnbound ipString dnsRecord" records]
    by (simp_all add: W0_def K_def)
  have W0_None: "map_of W0 k = Some None \<longleftrightarrow> k \<in> K" for k
  proof
    assume "map_of W0 k = Some None"
    then have "(k, None) \<in> set W0" by (rule map_of_SomeD)
    then show "k \<in> K" using W0(2) by force
  next
    assume "k \<in> K"
    then obtain v where "(k, v) \<in> set W0" using W0(2) by force
    moreover from this W0(3) have "v = None" by force
    ultimately show "map_of W0 k = Some None" using W0(1) by simp
  qed
  have Kp: "prefix p k" if "k \<in> K" for k
    using that by (auto simp: K_def p_def prefix_recordToUnbound)
  have Wkeys: "map fst W = map fst W0"
    by (simp add: W_def scanLines_keys)
  then have Wd: "distinct (map fst W)" using W0(1) by simp
  have W_None: "(k, None) \<in> set W \<longleftrightarrow> k \<in> K \<and> k \<notin> set (read fs)" for k
  proof -
    have "(k, None) \<in> set W \<longleftrightarrow> map_of W k = Some None"
      using Wd by simp
    also have "\<dots> \<longleftrightarrow> map_of W0 k = Some None \<and> \<not> (prefix p k \<and> k \<in> set (read fs))"
      by (simp add: W_def scanLines_None)
    also have "\<dots> \<longleftrightarrow> k \<in> K \<and> k \<notin> set (read fs)"
      using Kp by (auto simp: W0_None)
    finally show ?thesis .
  qed
  have RM: "RM = map fst (filter (\<lambda>e. prefix p (snd e) \<and> snd e \<notin> K) (enumerate 0 (read fs)))"
    by (simp add: RM_def scanLines_remove W0(2))
  have removed: "removeIndices (read fs) RM = kept"
    unfolding RM kept_def p_def [symmetric]
    by (rule removeIndices_marked [of "read fs" "\<lambda>l. prefix p l \<and> l \<notin> K"])
  have RM_Nil: "RM = [] \<longleftrightarrow> kept = read fs"
    unfolding RM kept_def p_def [symmetric]
    by (rule marked_Nil_iff [of "\<lambda>l. prefix p l \<and> l \<notin> K" "read fs"])
  have lines1: "(if length RM > 0 then removeIndices (read fs) RM else read fs) = kept"
    using removed RM_Nil by auto
  have m_eq: "missing = map fst (filter (\<lambda>e. snd e = None) (rangeOrder rankMissing W))"
    by (simp add: missing_def collectMissing_eq)
  have "distinct (map fst (rangeOrder rankMissing W))"
    using Wd by (simp add: distinct_keys_rangeOrder)
  then have m_dist: "distinct missing"
    unfolding m_eq by (rule distinct_map_filter)
  have m_set: "set missing = K - set (read fs)"
  proof -
    have "set missing = {k. (k, None) \<in> set W}"
      unfolding m_eq by (force simp: set_rangeOrder)
    then show ?thesis using W_None by auto
  qed
  have result: "UpdateIps ipString rankMissing rankIdx fs dnsRecord records =
     (if missing = [] \<and> kept = read fs then Inr ((False, None), fs)
      else case (if length missing = length records then Inr (kept @ missing)
                 else slices_Insert kept (lastPresentIndex (rangeOrder rankIdx W)) missing) of
             Inl p \<Rightarrow> Inl p
           | Inr lines2 \<Rightarrow> Inr ((True, writeErr fs), fs\<lparr>written := Some lines2\<rparr>))"
    unfolding UpdateIps_def
    by (simp add: ReadConf_def WriteConf_def rd p_def [symmetric] W0_def [symmetric] sc
        missing_def [symmetric] Let_def lines1 RM_Nil del: length_greater_0_conv
        split: sum.splits)
  have "if missing = [] \<and> kept = read fs
           then UpdateIps ipString rankMissing rankIdx fs dnsRecord records = Inr ((False, None), fs)
           else UpdateIps ipString rankMissing rankIdx fs dnsRecord records = Inl IndexOutOfRange \<and>
                  length missing \<noteq> length records \<or>
                (\<exists>i \<le> length kept.
                   (length missing = length records \<longrightarrow> i = length kept) \<and>
                   UpdateIps ipString rankMissing rankIdx fs dnsRecord records =
                     Inr ((True, writeErr fs),
                          fs\<lparr>written := Some (take i kept @ missing @ drop i kept)\<rparr>))"
  proof (cases "missing = [] \<and> kept = read fs")
    case True
    then show ?thesis by (simp add: result)
  next
    case False
    show ?thesis
    proof (cases "length missing = length records")
      case True
      with False have "UpdateIps ipString rankMissing rankIdx fs dnsRecord records =
          Inr ((True, writeErr fs),
               fs\<lparr>written := Some (take (length kept) kept @ missing @ drop (length kept) kept)\<rparr>)"
        by (simp add: result)
      with False True show ?thesis by (metis order_refl)
    next
      case neq: False
      define idx where "idx = lastPresentIndex (rangeOrder rankIdx W)"
      show ?thesis
      proof (cases "length kept < idx")
        case True
        with False neq show ?thesis
          by (simp add: result slices_Insert_def idx_def)
      next
        case le: False
        with False neq have "UpdateIps ipString rankMissing rankIdx fs dnsRecord records =
          Inr ((True, writeErr fs), fs\<lparr>written := Some (take idx kept @ missing @ drop idx kept)\<rparr>)"
          by (simp add: result slices_Insert_def idx_def)
        moreover from le have "idx \<le> length kept" by simp
        ultimately show ?thesis using False neq by auto
      qed
    qed
  qed
  with m_dist m_set show ?thesis by blast
qed


lemma UpdateIps_after:
  fixes ipString :: "IP \<Rightarrow> string" and dnsRecord :: string
    and records :: "ManagedDnsRecord list" and fs :: dummyUnboundFs
  assumes run: "UpdateIps ipString rankMissing rankIdx fs dnsRecord records = Inr ((changed, None), fs')"
    and fresh: "written fs = None"
  defines "K \<equiv> recordToUnbound ipString dnsRecord ` set records"
  defines "kept \<equiv> filter (\<lambda>l. \<not> (prefix (ownedPrefix dnsRecord) l \<and> l \<notin> K)) (read fs)"
  shows "\<exists>missing i. distinct missing \<and> set missing = K - set (read fs) \<and> i \<le> length kept \<and>
           linesAfter fs' = take i kept @ missing @ drop i kept"
proof -
  have rd: "readErr fs = None"
  proof (cases "readErr fs")
    case None
    then show ?thesis .
  next
    case (Some e)
    from UpdateIps_read_error [OF this, of ipString rankMissing rankIdx dnsRecord records] run
    show ?thesis by simp
  qed
  from UpdateIps_result [OF rd, of ipString dnsRecord records rankMissing rankIdx]
  obtain missing where m: "distinct missing" "set missing = K - set (read fs)"
    and res: "if missing = [] \<and> kept = read fs
           then UpdateIps ipString rankMissing rankIdx fs dnsRecord records = Inr ((False, None), fs)
           else UpdateIps ipString rankMissing rankIdx fs dnsRecord records = Inl IndexOutOfRange \<and>
                  length missing \<noteq> length records \<or>
                (\<exists>i \<le> length kept.
                   (length missing = length records \<longrightarrow> i = length kept) \<and>
                   UpdateIps ipString rankMissing rankIdx fs dnsRecord records =
                     Inr ((True, writeErr fs),
                          fs\<lparr>written := Some (take i kept @ missing @ drop i kept)\<rparr>))"
    unfolding K_def kept_def by blast
  show ?thesis
  proof (cases "missing = [] \<and> kept = read fs")
    case True
    with res run have "fs' = fs" by simp
    with fresh have "linesAfter fs' = read fs" by (simp add: linesAfter_def)
    with True have "linesAfter fs' = take 0 kept @ missing @ drop 0 kept" by simp
    with m show ?thesis by blast
  next
    case False
    with res run obtain i where i: "i \<le> length kept"
      "fs' = fs\<lparr>written := Some (take i kept @ missing @ drop i kept)\<rparr>"
      by auto
    then have "linesAfter fs' = take i kept @ missing @ drop i kept"
      by (simp add: linesAfter_def)
    with m i(1) show ?thesis by blast
  qed
qed

lemma filter_insert_none:
  assumes "\<forall>m \<in> set ms. \<not> P m"
  shows "filter P (take i xs @ ms @ drop i xs) = filter P xs"
proof -
  from assms have none: "filter P ms = []" by (simp add: filter_empty_conv)
  have "filter P (take i xs) @ filter P (drop i xs) = filter P (take i xs @ drop i xs)"
    by (simp only: filter_append)
  also have "\<dots> = filter P xs" by (simp only: append_take_drop_id)
  finally show ?thesis by (simp add: none)
qed

lemma mset_insert_at: "mset (take i xs @ ms @ drop i xs) = mset xs + mset ms"
proof -
  have "mset (take i xs) + mset (drop i xs) = mset (take i xs @ drop i xs)"
    by (simp only: mset_append)
  also have "\<dots> = mset xs" by (simp only: append_take_drop_id)
  finally show ?thesis by simp
qed

lemma UpdateIps_others_unchanged:
  fixes ipString :: "IP \<Rightarrow> string" and dnsRecord :: string
    and records :: "ManagedDnsRecord list" and fs :: dummyUnboundFs
  assumes run: "UpdateIps ipString rankMissing rankIdx fs dnsRecord records = Inr ((changed, None), fs')"
    and fresh: "written fs = None"
  shows "filter (\<lambda>l. \<not> prefix (ownedPrefix dnsRecord) l) (linesAfter fs') =
         filter (\<lambda>l. \<not> prefix (ownedPrefix dnsRecord) l) (read fs)"
proof -
  define K where "K = recordToUnbound ipString dnsRecord ` set records"
  define kept where "kept = filter (\<lambda>l. \<not> (prefix (ownedPrefix dnsRecord) l \<and> l \<notin> K)) (read fs)"
  from UpdateIps_after [OF run fresh]
  obtain missing i where m: "set missing = K - set (read fs)"
    and post: "linesAfter fs' = take i kept @ missing @ drop i kept"
    unfolding K_def kept_def by blast
  have "\<forall>l \<in> set missing. \<not> \<not> prefix (ownedPrefix dnsRecord) l"
    using m by (auto simp: K_def prefix_recordToUnbound)
  then have "filter (\<lambda>l. \<not> prefix (ownedPrefix dnsRecord) l) (linesAfter fs') =
        filter (\<lambda>l. \<not> prefix (ownedPrefix dnsRecord) l) kept"
    unfolding post by (rule filter_insert_none)
  also have "\<dots> = filter (\<lambda>l. \<not> prefix (ownedPrefix dnsRecord) l) (read fs)"
    unfolding kept_def by (auto simp: filter_filter intro: filter_cong)
  finally show ?thesis .
qed

lemma UpdateIps_owned_mset:
  fixes ipString :: "IP \<Rightarrow> string" and dnsRecord :: string
    and records :: "ManagedDnsRecord list" and fs :: dummyUnboundFs
  assumes run: "UpdateIps ipString rankMissing rankIdx fs dnsRecord records = Inr ((changed, None), fs')"
    and fresh: "written fs = None"
  shows "\<exists>missing. distinct missing \<and>
           set missing = recordToUnbound ipString dnsRecord ` set records - set (read fs) \<and>
           mset (filter (prefix (ownedPrefix dnsRecord)) (linesAfter fs')) =
             mset (filter (\<lambda>l. l \<in> recordToUnbound ipString dnsRecord ` set records) (read fs)) +
             mset missing"
proof -
  define K where "K = recordToUnbound ipString dnsRecord ` set records"
  define kept where "kept = filter (\<lambda>l. \<not> (prefix (ownedPrefix dnsRecord) l \<and> l \<notin> K)) (read fs)"
  from UpdateIps_after [OF run fresh]
  obtain missing i where m: "distinct missing" "set missing = K - set (read fs)"
    and post: "linesAfter fs' = take i kept @ missing @ drop i kept"
    unfolding K_def kept_def by blast
  have Kp: "\<And>k. k \<in> K \<Longrightarrow> prefix (ownedPrefix dnsRecord) k"
    by (auto simp: K_def prefix_recordToUnbound)
  have "mset (filter (prefix (ownedPrefix dnsRecord)) (linesAfter fs')) =
        mset (filter (prefix (ownedPrefix dnsRecord)) kept) +
        mset (filter (prefix (ownedPrefix dnsRecord)) missing)"
    unfolding post by (simp only: mset_filter mset_insert_at filter_union_mset)
  moreover have "filter (prefix (ownedPrefix dnsRecord)) missing = missing"
    using m(2) Kp by (simp add: filter_id_conv)
  moreover have "filter (prefix (ownedPrefix dnsRecord)) kept = filter (\<lambda>l. l \<in> K) (read fs)"
    unfolding kept_def using Kp by (auto simp: filter_filter intro: filter_cong)
  ultimately show ?thesis using m unfolding K_def by auto
qed

lemma UpdateIps_owned_set:
  fixes ipString :: "IP \<Rightarrow> string" and dnsRecord :: string
    and records :: "ManagedDnsRecord list" and fs :: dummyUnboundFs
  assumes run: "UpdateIps ipString rankMissing rankIdx fs dnsRecord records = Inr ((changed, None), fs')"
    and fresh: "written fs = None"
  shows "set (filter (prefix (ownedPrefix dnsRecord)) (linesAfter fs')) =
         recordToUnbound ipString dnsRecord ` set records"
proof -
  from UpdateIps_owned_mset [OF run fresh]
  obtain missing where m: "set missing = recordToUnbound ipString dnsRecord ` set records - set (read fs)"
    and ms: "mset (filter (prefix (ownedPrefix dnsRecord)) (linesAfter fs')) =
             mset (filter (\<lambda>l. l \<in> recordToUnbound ipString dnsRecord ` set records) (read fs)) +
             mset missing"
    by blast
  have "set (filter (prefix (ownedPrefix dnsRecord)) (linesAfter fs')) =
        set_mset (mset (filter (prefix (ownedPrefix dnsRecord)) (linesAfter fs')))"
    by (simp only: set_mset_mset)
  also have "\<dots> = set (filter (\<lambda>l. l \<in> recordToUnbound ipString dnsRecord ` set records) (read fs)) \<union>
        set missing"
    unfolding ms by (simp only: set_mset_union set_mset_mset)
  also have "\<dots> = recordToUnbound ipString dnsRecord ` set records"
    using m by auto
  finally show ?thesis .
qed

lemma UpdateIps_no_change:
  fixes ipString :: "IP \<Rightarrow> string" and dnsRecord :: string
    and records :: "ManagedDnsRecord list" and fs :: dummyUnboundFs
  assumes rd: "readErr fs = None"
    and owned: "set (filter (prefix (ownedPrefix dnsRecord)) (read fs)) =
         recordToUnbound ipString dnsRecord ` set records"
  shows "UpdateIps ipString rankMissing rankIdx fs dnsRecord records = Inr ((False, None), fs)"
proof -
  define K where "K = recordToUnbound ipString dnsRecord ` set records"
  define kept where "kept = filter (\<lambda>l. \<not> (prefix (ownedPrefix dnsRecord) l \<and> l \<notin> K)) (read fs)"
  from UpdateIps_result [OF rd, of ipString dnsRecord records rankMissing rankIdx]
  obtain missing where m: "set missing = K - set (read fs)"
    and res: "if missing = [] \<and> kept = read fs
           then UpdateIps ipString rankMissing rankIdx fs dnsRecord records = Inr ((False, None), fs)
           else UpdateIps ipString rankMissing rankIdx fs dnsRecord records = Inl IndexOutOfRange \<and>
                  length missing \<noteq> length records \<or>
                (\<exists>i \<le> length kept.
                   (length missing = length records \<longrightarrow> i = length kept) \<and>
                   UpdateIps ipString rankMissing rankIdx fs dnsRecord records =
                     Inr ((True, writeErr fs),
                          fs\<lparr>written := Some (take i kept @ missing @ drop i kept)\<rparr>))"
    unfolding K_def kept_def by blast
  from owned have sub: "K \<subseteq> set (read fs)" and own: "\<And>l. l \<in> set (read fs) \<Longrightarrow>
      prefix (ownedPrefix dnsRecord) l \<Longrightarrow> l \<in> K"
    unfolding K_def by auto
  from sub m have "set missing = {}" by auto
  then have "missing = []" by simp
  moreover from own have "kept = read fs"
    unfolding kept_def by (auto simp: filter_id_conv)
  ultimately show ?thesis using res by simp
qed


text \<open>
  When no desired line is in the file and the canonical lines of the desired records are
  pairwise distinct, the call writes the file without the stale lines of the host and
  with the desired lines appended at the end, in the order of ranging over the map.
\<close>

lemma UpdateIps_appends_when_none_present:
  fixes ipString :: "IP \<Rightarrow> string" and dnsRecord :: string
    and records :: "ManagedDnsRecord list" and fs :: dummyUnboundFs
  assumes rd: "readErr fs = None"
    and dist: "distinct (map (recordToUnbound ipString dnsRecord) records)"
    and ne: "records \<noteq> []"
    and none: "\<forall>r \<in> set records. recordToUnbound ipString dnsRecord r \<notin> set (read fs)"
  shows "\<exists>missing. mset missing = mset (map (recordToUnbound ipString dnsRecord) records) \<and>
           UpdateIps ipString rankMissing rankIdx fs dnsRecord records =
             Inr ((True, writeErr fs),
                  fs\<lparr>written := Some (filter (\<lambda>l. \<not> prefix (ownedPrefix dnsRecord) l) (read fs) @
                                        missing)\<rparr>)"
proof -
  define K where "K = recordToUnbound ipString dnsRecord ` set records"
  define kept where "kept = filter (\<lambda>l. \<not> (prefix (ownedPrefix dnsRecord) l \<and> l \<notin> K)) (read fs)"
  from UpdateIps_result [OF rd, of ipString dnsRecord records rankMissing rankIdx]
  obtain missing where m: "distinct missing" "set missing = K - set (read fs)"
    and res: "if missing = [] \<and> kept = read fs
           then UpdateIps ipString rankMissing rankIdx fs dnsRecord records = Inr ((False, None), fs)
           else UpdateIps ipString rankMissing rankIdx fs dnsRecord records = Inl IndexOutOfRange \<and>
                  length missing \<noteq> length records \<or>
                (\<exists>i \<le> length kept.
                   (length missing = length records \<longrightarrow> i = length kept) \<and>
                   UpdateIps ipString rankMissing rankIdx fs dnsRecord records =
                     Inr ((True, writeErr fs),
                          fs\<lparr>written := Some (take i kept @ missing @ drop i kept)\<rparr>))"
    unfolding K_def kept_def by blast
  from none have "K - set (read fs) = K" by (auto simp: K_def)
  with m(2) have "set missing = set (map (recordToUnbound ipString dnsRecord) records)"
    by (simp add: K_def)
  with m(1) dist have ms: "mset missing = mset (map (recordToUnbound ipString dnsRecord) records)"
    by (simp only: set_eq_iff_mset_eq_distinct)
  then have "size (mset missing) = size (mset (map (recordToUnbound ipString dnsRecord) records))"
    by simp
  then have len: "length missing = length records" by simp
  with ne have "missing \<noteq> []" by auto
  with res len obtain i where i: "i = length kept"
    "UpdateIps ipString rankMissing rankIdx fs dnsRecord records =
       Inr ((True, writeErr fs), fs\<lparr>written := Some (take i kept @ missing @ drop i kept)\<rparr>)"
    by auto
  have "kept = filter (\<lambda>l. \<not> prefix (ownedPrefix dnsRecord) l) (read fs)"
    unfolding kept_def using none by (intro filter_cong) (auto simp: K_def)
  with i ms show ?thesis by auto
qed

text \<open>
  An index stored by the scan is the index of a line, and without a stale line nothing is
  removed before the insertion: a call on a file without stale lines of the host never
  panics.
\<close>

lemma scanLines_index_bound:
  "\<forall>k j. (k, Some j) \<in> set w \<longrightarrow> j < i \<Longrightarrow>
   (k, Some j) \<in> set (fst (scanLines p i ls (w, rm))) \<Longrightarrow> j < i + length ls"
proof (induction ls arbitrary: i w rm)
  case Nil
  then show ?case by simp
next
  case (Cons l ls)
  define w1 where "w1 = (if prefix p l \<and> l \<in> fst ` set w then AList.update l (Some i) w else w)"
  define rm1 where "rm1 = (if prefix p l \<and> l \<notin> fst ` set w then rm @ [i] else rm)"
  have step: "scanLines p i (l # ls) (w, rm) = scanLines p (Suc i) ls (w1, rm1)"
    by (simp add: markWanted_eq w1_def rm1_def)
  have sub: "set w1 \<subseteq> insert (l, Some i) (set w)"
    using set_update_subset [of l "Some i" w] by (auto simp: w1_def)
  have b: "\<forall>k j. (k, Some j) \<in> set w1 \<longrightarrow> j < Suc i"
  proof (intro allI impI)
    fix k j assume "(k, Some j) \<in> set w1"
    with sub have "(k, Some j) = (l, Some i) \<or> (k, Some j) \<in> set w" by auto
    then show "j < Suc i"
    proof
      assume "(k, Some j) = (l, Some i)"
      then show ?thesis by simp
    next
      assume "(k, Some j) \<in> set w"
      with Cons.prems(1) have "j < i" by blast
      then show ?thesis by simp
    qed
  qed
  from Cons.prems(2) have "(k, Some j) \<in> set (fst (scanLines p (Suc i) ls (w1, rm1)))"
    by (simp only: step)
  from Cons.IH [OF b this] show ?case by simp
qed

lemma lastPresentIndex_fold_bound:
  "a \<le> n \<Longrightarrow> \<forall>e \<in> set es. \<forall>j. snd e = Some j \<longrightarrow> j \<le> n \<Longrightarrow>
   fold (\<lambda>entry idx. case snd entry of None \<Rightarrow> idx | Some line \<Rightarrow> line) es a \<le> n"
  by (induction es arbitrary: a) (auto split: option.splits)

lemma lastPresentIndex_bound:
  "\<forall>e \<in> set es. \<forall>j. snd e = Some j \<longrightarrow> j \<le> n \<Longrightarrow> lastPresentIndex es \<le> n"
  by (simp add: lastPresentIndex_def lastPresentIndex_fold_bound)

lemma UpdateIps_returns_without_stale:
  fixes ipString :: "IP \<Rightarrow> string" and dnsRecord :: string
    and records :: "ManagedDnsRecord list" and fs :: dummyUnboundFs
  assumes nostale: "\<forall>l \<in> set (read fs). prefix (ownedPrefix dnsRecord) l \<longrightarrow>
      l \<in> recordToUnbound ipString dnsRecord ` set records"
  shows "UpdateIps ipString rankMissing rankIdx fs dnsRecord records \<noteq> Inl IndexOutOfRange"
proof (cases "readErr fs")
  case (Some e)
  then show ?thesis by (simp add: UpdateIps_read_error)
next
  case None
  define p where "p = ownedPrefix dnsRecord"
  define W0 :: "(string \<times> nat option) list" where "W0 = fold (\<lambda>record wanted.
       AList.update (recordToUnbound ipString dnsRecord record) None wanted) records []"
  define W where "W = fst (scanLines p 0 (read fs) (W0, []))"
  define RM where "RM = snd (scanLines p 0 (read fs) (W0, []))"
  have sc: "scanLines p 0 (read fs) (W0, []) = (W, RM)"
    by (simp add: W_def RM_def)
  have W0: "fst ` set W0 = recordToUnbound ipString dnsRecord ` set records"
    "\<forall>e \<in> set W0. snd e = None"
    using wanted_fold [of "[] :: (string \<times> nat option) list"
        "recordToUnbound ipString dnsRecord" records]
    by (simp_all add: W0_def)
  have "RM = map fst (filter (\<lambda>e. prefix p (snd e) \<and>
        snd e \<notin> recordToUnbound ipString dnsRecord ` set records) (enumerate 0 (read fs)))"
    by (simp add: RM_def scanLines_remove W0(1))
  moreover have "filter (\<lambda>l. \<not> (prefix p l \<and>
        l \<notin> recordToUnbound ipString dnsRecord ` set records)) (read fs) = read fs"
    using nostale by (auto simp: filter_id_conv p_def)
  ultimately have RM: "RM = []"
    using marked_Nil_iff [of "\<lambda>l. prefix p l \<and>
        l \<notin> recordToUnbound ipString dnsRecord ` set records" "read fs"] by simp
  have "\<forall>k j. (k, Some j) \<in> set W0 \<longrightarrow> j < 0"
    using W0(2) by force
  then have "\<And>k j. (k, Some j) \<in> set W \<Longrightarrow> j < 0 + length (read fs)"
    unfolding W_def by (rule scanLines_index_bound)
  then have "\<forall>e \<in> set (rangeOrder rankIdx W). \<forall>j. snd e = Some j \<longrightarrow> j \<le> length (read fs)"
    by (auto simp: set_rangeOrder) (metis less_imp_le prod.collapse)
  then have idx: "lastPresentIndex (rangeOrder rankIdx W) \<le> length (read fs)"
    by (rule lastPresentIndex_bound)
  show ?thesis
    unfolding UpdateIps_def
    using idx
    by (simp add: ReadConf_def WriteConf_def None p_def [symmetric] W0_def [symmetric] sc RM
        Let_def slices_Insert_def split: sum.splits)
qed

subsection \<open>The zone store on concrete files\<close>

lemma ipText_v4: "ipText [a, b, c, d] = dottedQuad [a, b, c, d]"
  by (simp add: ipText_def To4_def)

lemma ipText_loopback: "ipText [0, 0, 0, 0, 0, 0, 0, 0, 0, 0, 0, 0, 0, 0, 0, 1] = ''::1''"
  by (simp add: ipText_def To4_def)

lemmas eval_defs = UpdateIps_def ReadConf_def WriteConf_def zoneLine_def recordToUnbound_def
  managed_def decimal.simps digit_def ipText_v4 ipText_loopback
  ownedPrefix_def quote_def markWanted_def markWantedIn_def collectMissing_def rangeOrder_def
  lastPresentIndex_def removeIndices_def slices_Insert_def linesAfter_def

lemma ttlDrift_run:
  "UpdateIps ipText (\<lambda>k. 0) (\<lambda>k. 0) (ttlDriftFs werr) ''test-01.my.tld'' [testRecord] =
     Inr ((True, werr), (ttlDriftFs werr)\<lparr>written := Some ttlDriftFixed\<rparr>)"
  by (simp add: eval_defs ttlDriftFs_def ttlDriftFixed_def testRecord_def)

text \<open>
  Two stale lines before the line that is present: the index of the present line, taken
  before the stale lines are removed, is beyond the end of the shortened sequence, and
  \<open>slices.Insert\<close> panics.
\<close>

lemma UpdateIps_panics:
  "UpdateIps ipText rankMissing rankIdx
     \<lparr>read = [zoneLine ''h 60 A 10.0.0.1'', zoneLine ''h 60 A 10.0.0.2'', zoneLine ''h 30 AAAA ::1''],
      readErr = None, written = None, writeErr = None\<rparr>
     ''h''
     [managed ''h'' 200 ''A'' [10, 0, 0, 1] 30 (Healthy 5 5 5),
      managed ''h'' 100 ''AAAA'' [0, 0, 0, 0, 0, 0, 0, 0, 0, 0, 0, 0, 0, 0, 0, 1] 30 (Healthy 5 5 5)] =
   Inl IndexOutOfRange"
  by (simp add: eval_defs)

text \<open>
  With two desired lines present and a third missing, the place of the missing line
  depends on the order in which the map is ranged over.
\<close>

lemma UpdateIps_anchor_depends_on_order:
  "UpdateIps ipText (\<lambda>k. 0) (\<lambda>k. 0)
     \<lparr>read = [zoneLine ''h 30 A 10.0.0.1'', zoneLine ''x'', zoneLine ''h 30 A 10.0.0.2''],
      readErr = None, written = None, writeErr = None\<rparr>
     ''h''
     [managed ''h'' 200 ''A'' [10, 0, 0, 1] 30 (Healthy 5 5 5),
      managed ''h'' 150 ''A'' [10, 0, 0, 2] 30 (Healthy 5 5 5),
      managed ''h'' 100 ''A'' [10, 0, 0, 3] 30 (Healthy 5 5 5)] =
   Inr ((True, None),
     \<lparr>read = [zoneLine ''h 30 A 10.0.0.1'', zoneLine ''x'', zoneLine ''h 30 A 10.0.0.2''],
      readErr = None,
      written = Some [zoneLine ''h 30 A 10.0.0.1'', zoneLine ''x'', zoneLine ''h 30 A 10.0.0.3'',
                      zoneLine ''h 30 A 10.0.0.2''],
      writeErr = None\<rparr>) \<and>
   UpdateIps ipText (\<lambda>k. 0) (\<lambda>k. if k = zoneLine ''h 30 A 10.0.0.1'' then 1 else 0)
     \<lparr>read = [zoneLine ''h 30 A 10.0.0.1'', zoneLine ''x'', zoneLine ''h 30 A 10.0.0.2''],
      readErr = None, written = None, writeErr = None\<rparr>
     ''h''
     [managed ''h'' 200 ''A'' [10, 0, 0, 1] 30 (Healthy 5 5 5),
      managed ''h'' 150 ''A'' [10, 0, 0, 2] 30 (Healthy 5 5 5),
      managed ''h'' 100 ''A'' [10, 0, 0, 3] 30 (Healthy 5 5 5)] =
   Inr ((True, None),
     \<lparr>read = [zoneLine ''h 30 A 10.0.0.1'', zoneLine ''x'', zoneLine ''h 30 A 10.0.0.2''],
      readErr = None,
      written = Some [zoneLine ''h 30 A 10.0.0.3'', zoneLine ''h 30 A 10.0.0.1'', zoneLine ''x'',
                      zoneLine ''h 30 A 10.0.0.2''],
      writeErr = None\<rparr>)"
  by (simp add: eval_defs)

text \<open>
  Claim C4: when some desired line is present, the missing lines are inserted
  immediately before the position of the last surviving present desired line. The code
  evaluated on a file with a stale line of the host, then the present AAAA line, then a
  line of another host, for every order of ranging over the map: the stale line is
  removed, and the missing A line is inserted at the index the AAAA line had before the
  removal, which is now the place after it.
\<close>

theorem C4_missing_line_inserted_after_anchor:
  "UpdateIps ipText rankMissing rankIdx
     \<lparr>read = [zoneLine ''h 60 A 10.0.0.1'', zoneLine ''h 30 AAAA ::1'', zoneLine ''other 30 A 10.0.0.7''],
      readErr = None, written = None, writeErr = None\<rparr>
     ''h''
     [managed ''h'' 200 ''A'' [10, 0, 0, 1] 30 (Healthy 5 5 5),
      managed ''h'' 100 ''AAAA'' [0, 0, 0, 0, 0, 0, 0, 0, 0, 0, 0, 0, 0, 0, 0, 1] 30 (Healthy 5 5 5)] =
   Inr ((True, None),
     \<lparr>read = [zoneLine ''h 60 A 10.0.0.1'', zoneLine ''h 30 AAAA ::1'', zoneLine ''other 30 A 10.0.0.7''],
      readErr = None,
      written = Some [zoneLine ''h 30 AAAA ::1'', zoneLine ''h 30 A 10.0.0.1'', zoneLine ''other 30 A 10.0.0.7''],
      writeErr = None\<rparr>)"
  by (simp add: eval_defs)

subsection \<open>The lines after a successful call\<close>

text \<open>
  Claim C2, as stated: after a call that returns without error the owned lines are the
  canonical lines of the desired records as a multiset. A file that holds the desired
  line twice is left as it is, and its owned lines are two.
\<close>

theorem C2_duplicate_line_counterexample:
  "UpdateIps ipText (\<lambda>k. 0) (\<lambda>k. 0)
     \<lparr>read = [zoneLine ''h 30 A 10.0.0.1'', zoneLine ''h 30 A 10.0.0.1''],
      readErr = None, written = None, writeErr = None\<rparr>
     ''h'' [managed ''h'' 200 ''A'' [10, 0, 0, 1] 30 (Healthy 5 5 5)] =
   Inr ((False, None),
     \<lparr>read = [zoneLine ''h 30 A 10.0.0.1'', zoneLine ''h 30 A 10.0.0.1''],
      readErr = None, written = None, writeErr = None\<rparr>) \<and>
   mset (filter (prefix (ownedPrefix ''h''))
     (linesAfter \<lparr>read = [zoneLine ''h 30 A 10.0.0.1'', zoneLine ''h 30 A 10.0.0.1''],
      readErr = None, written = None, writeErr = None\<rparr>)) \<noteq>
   mset (map (recordToUnbound ipText ''h'') [managed ''h'' 200 ''A'' [10, 0, 0, 1] 30 (Healthy 5 5 5)])"
  by (simp add: eval_defs)

text \<open>
  The same happens when the desired list names one canonical line twice: the map of wanted
  lines has one key, the line is present, and nothing is written.
\<close>

lemma UpdateIps_duplicate_desired:
  "UpdateIps ipText (\<lambda>k. 0) (\<lambda>k. 0)
     \<lparr>read = [zoneLine ''h 30 A 10.0.0.1''], readErr = None, written = None, writeErr = None\<rparr>
     ''h''
     [managed ''h'' 200 ''A'' [10, 0, 0, 1] 30 (Healthy 5 5 5),
      managed ''h'' 100 ''A'' [10, 0, 0, 1] 30 (Healthy 5 5 5)] =
   Inr ((False, None),
     \<lparr>read = [zoneLine ''h 30 A 10.0.0.1''], readErr = None, written = None, writeErr = None\<rparr>)"
  by (simp add: eval_defs)

text \<open>
  Claim C2, amended: if \<open>UpdateIps\<close> returns without error, then every line that does
  not start with the owned prefix is unchanged and in its original relative order; the
  lines that start with the prefix are, as a set, exactly the canonical lines of the
  desired records; and they are those lines as a multiset (so \<open>|desired|\<close> lines) when
  the canonical lines of the desired records are pairwise distinct and none of them
  occurs more than once in the file before the call.
\<close>

theorem C2_reconcile_lines:
  fixes ipString :: "IP \<Rightarrow> string" and dnsRecord :: string
    and desired :: "ManagedDnsRecord list" and fs :: dummyUnboundFs
  assumes run: "UpdateIps ipString rankMissing rankIdx fs dnsRecord desired = Inr ((changed, None), fs')"
    and fresh: "written fs = None"
  shows "filter (\<lambda>l. \<not> prefix (ownedPrefix dnsRecord) l) (linesAfter fs') =
           filter (\<lambda>l. \<not> prefix (ownedPrefix dnsRecord) l) (read fs) \<and>
         set (filter (prefix (ownedPrefix dnsRecord)) (linesAfter fs')) =
           set (map (recordToUnbound ipString dnsRecord) desired) \<and>
         (distinct (map (recordToUnbound ipString dnsRecord) desired) \<and>
          (\<forall>k \<in> set (map (recordToUnbound ipString dnsRecord) desired). count_list (read fs) k \<le> 1) \<longrightarrow>
            mset (filter (prefix (ownedPrefix dnsRecord)) (linesAfter fs')) =
              mset (map (recordToUnbound ipString dnsRecord) desired))"
proof (intro conjI impI)
  show "filter (\<lambda>l. \<not> prefix (ownedPrefix dnsRecord) l) (linesAfter fs') =
           filter (\<lambda>l. \<not> prefix (ownedPrefix dnsRecord) l) (read fs)"
    using run fresh by (rule UpdateIps_others_unchanged)
  show "set (filter (prefix (ownedPrefix dnsRecord)) (linesAfter fs')) =
           set (map (recordToUnbound ipString dnsRecord) desired)"
    using UpdateIps_owned_set [OF run fresh] by simp
next
  assume h: "distinct (map (recordToUnbound ipString dnsRecord) desired) \<and>
          (\<forall>k \<in> set (map (recordToUnbound ipString dnsRecord) desired). count_list (read fs) k \<le> 1)"
  define K where "K = recordToUnbound ipString dnsRecord ` set desired"
  from UpdateIps_owned_mset [OF run fresh]
  obtain missing where m: "distinct missing" "set missing = K - set (read fs)"
    and ms: "mset (filter (prefix (ownedPrefix dnsRecord)) (linesAfter fs')) =
             mset (filter (\<lambda>l. l \<in> K) (read fs)) + mset missing"
    unfolding K_def by blast
  have once: "\<And>k. k \<in> K \<Longrightarrow> count_list (read fs) k \<le> 1"
    using h by (auto simp: K_def)
  have "count (mset (filter (\<lambda>l. l \<in> K) (read fs)) + mset missing) x =
        count (mset (map (recordToUnbound ipString dnsRecord) desired)) x" for x
  proof -
    have rhs: "count (mset (map (recordToUnbound ipString dnsRecord) desired)) x =
          (if x \<in> K then 1 else 0)"
      using h distinct_count_atmost_1 [of "map (recordToUnbound ipString dnsRecord) desired"]
      by (simp add: K_def)
    have mis: "count (mset missing) x = (if x \<in> K \<and> x \<notin> set (read fs) then 1 else 0)"
      using m distinct_count_atmost_1 [of missing] by simp
    have kept: "count (mset (filter (\<lambda>l. l \<in> K) (read fs))) x =
          (if x \<in> K \<and> x \<in> set (read fs) then 1 else 0)"
    proof (cases "x \<in> K \<and> x \<in> set (read fs)")
      case True
      then have "count_list (read fs) x \<noteq> 0" by (simp add: count_list_0_iff)
      with once [of x] True have "count_list (read fs) x = 1" by simp
      with True show ?thesis by (simp add: count_mset)
    next
      case False
      then show ?thesis by (auto simp: count_mset count_list_0_iff)
    qed
    show ?thesis unfolding count_union rhs mis kept by simp
  qed
  then have "mset (filter (\<lambda>l. l \<in> K) (read fs)) + mset missing =
        mset (map (recordToUnbound ipString dnsRecord) desired)"
    by (rule multiset_eqI)
  with ms show "mset (filter (prefix (ownedPrefix dnsRecord)) (linesAfter fs')) =
              mset (map (recordToUnbound ipString dnsRecord) desired)"
    by simp
qed

theorem C2_reconcile_lines_witness:
  "UpdateIps ipText (\<lambda>k. 0) (\<lambda>k. 0) (ttlDriftFs None) ''test-01.my.tld'' [testRecord] =
     Inr ((True, None), (ttlDriftFs None)\<lparr>written := Some ttlDriftFixed\<rparr>) \<and>
   written (ttlDriftFs None) = None \<and>
   distinct (map (recordToUnbound ipText ''test-01.my.tld'') [testRecord]) \<and>
   count_list (read (ttlDriftFs None)) (recordToUnbound ipText ''test-01.my.tld'' testRecord) \<le> 1 \<and>
   filter (\<lambda>l. \<not> prefix (ownedPrefix ''test-01.my.tld'') l) ttlDriftFixed =
     filter (\<lambda>l. \<not> prefix (ownedPrefix ''test-01.my.tld'') l) (read (ttlDriftFs None)) \<and>
   mset (filter (prefix (ownedPrefix ''test-01.my.tld'')) ttlDriftFixed) =
     mset (map (recordToUnbound ipText ''test-01.my.tld'') [testRecord])"
proof -
  have fresh: "written (ttlDriftFs None) = None"
    by (simp add: ttlDriftFs_def)
  have after: "linesAfter ((ttlDriftFs None)\<lparr>written := Some ttlDriftFixed\<rparr>) = ttlDriftFixed"
    by (simp add: linesAfter_def)
  have hyp: "distinct (map (recordToUnbound ipText ''test-01.my.tld'') [testRecord]) \<and>
     (\<forall>k \<in> set (map (recordToUnbound ipText ''test-01.my.tld'') [testRecord]).
       count_list (read (ttlDriftFs None)) k \<le> 1)"
    by (simp add: eval_defs ttlDriftFs_def testRecord_def)
  have once: "count_list (read (ttlDriftFs None))
      (recordToUnbound ipText ''test-01.my.tld'' testRecord) \<le> 1"
    using hyp by simp
  from C2_reconcile_lines [OF ttlDrift_run fresh] hyp once ttlDrift_run fresh show ?thesis
    unfolding after by blast
qed




text \<open>
  For the file store this means: the second call changes nothing whenever reading the file
  again gives the lines the first call left.
\<close>

lemma FsImpl_store_Inr:
  "FsImpl_store (Inr content) werr =
     \<lparr>read = Split (TrimSpace content), readErr = None, written = None, writeErr = werr\<rparr>"
  by (simp add: FsImpl_store_def FsImpl_ReadConf_def)

lemma FsImpl_second_call_when_read_back:
  fixes ipString :: "IP \<Rightarrow> string" and dnsRecord :: string
    and desired :: "ManagedDnsRecord list"
  assumes run: "UpdateIps ipString rankMissing rankIdx (FsImpl_store (Inr content) werr)
        dnsRecord desired = Inr ((changed, None), fs')"
    and reread: "Split (TrimSpace (fileAfter content fs')) = linesAfter fs'"
  shows "UpdateIps ipString rankMissing' rankIdx' (FsImpl_store (Inr (fileAfter content fs')) werr')
           dnsRecord desired =
         Inr ((False, None), FsImpl_store (Inr (fileAfter content fs')) werr')"
proof -
  have fresh: "written (FsImpl_store (Inr content) werr) = None"
    by (simp add: FsImpl_store_Inr)
  have "set (filter (prefix (ownedPrefix dnsRecord)) (linesAfter fs')) =
        recordToUnbound ipString dnsRecord ` set desired"
    using run fresh by (rule UpdateIps_owned_set)
  then show ?thesis
    by (intro UpdateIps_no_change) (simp_all add: FsImpl_store_Inr reread)
qed

text \<open>
  Whenever \<open>UpdateIps\<close> returns, \<open>changed\<close> is true exactly when \<open>WriteConf\<close> was called,
  which is exactly when the read succeeded and a desired line was missing or a stale owned
  line existed; the error returned with \<open>changed = true\<close> is the error of the write,
  whatever it is; and with \<open>changed = false\<close> the store is untouched.
\<close>

lemma UpdateIps_changed_iff_written:
  fixes ipString :: "IP \<Rightarrow> string" and dnsRecord :: string
    and records :: "ManagedDnsRecord list" and fs :: dummyUnboundFs
  assumes run: "UpdateIps ipString rankMissing rankIdx fs dnsRecord records = Inr ((changed, err), fs')"
    and fresh: "written fs = None"
  shows "(changed \<longleftrightarrow> written fs' \<noteq> None) \<and>
         (changed \<longrightarrow> err = writeErr fs) \<and>
         (\<not> changed \<longrightarrow> fs' = fs \<and> err = readErr fs) \<and>
         (changed \<longleftrightarrow>
            readErr fs = None \<and>
            ((\<exists>k \<in> set (map (recordToUnbound ipString dnsRecord) records). k \<notin> set (read fs)) \<or>
             (\<exists>l \<in> set (read fs). prefix (ownedPrefix dnsRecord) l \<and>
                 l \<notin> set (map (recordToUnbound ipString dnsRecord) records))))"
proof (cases "readErr fs")
  case (Some e)
  from UpdateIps_read_error [OF this, of ipString rankMissing rankIdx dnsRecord records] run
  have "changed = False" "err = Some e" "fs' = fs" by simp_all
  with Some fresh show ?thesis by simp
next
  case None
  define K where "K = recordToUnbound ipString dnsRecord ` set records"
  define kept where "kept = filter (\<lambda>l. \<not> (prefix (ownedPrefix dnsRecord) l \<and> l \<notin> K)) (read fs)"
  from UpdateIps_result [OF None, of ipString dnsRecord records rankMissing rankIdx]
  obtain missing where m: "set missing = K - set (read fs)"
    and res: "if missing = [] \<and> kept = read fs
           then UpdateIps ipString rankMissing rankIdx fs dnsRecord records = Inr ((False, None), fs)
           else UpdateIps ipString rankMissing rankIdx fs dnsRecord records = Inl IndexOutOfRange \<and>
                  length missing \<noteq> length records \<or>
                (\<exists>i \<le> length kept.
                   (length missing = length records \<longrightarrow> i = length kept) \<and>
                   UpdateIps ipString rankMissing rankIdx fs dnsRecord records =
                     Inr ((True, writeErr fs),
                          fs\<lparr>written := Some (take i kept @ missing @ drop i kept)\<rparr>))"
    unfolding K_def kept_def by blast
  have mis: "missing = [] \<longleftrightarrow> \<not> (\<exists>k \<in> K. k \<notin> set (read fs))"
  proof -
    have "missing = [] \<longleftrightarrow> set missing = {}" by simp
    also have "\<dots> \<longleftrightarrow> \<not> (\<exists>k \<in> K. k \<notin> set (read fs))" using m by auto
    finally show ?thesis .
  qed
  have stale: "kept = read fs \<longleftrightarrow>
      \<not> (\<exists>l \<in> set (read fs). prefix (ownedPrefix dnsRecord) l \<and> l \<notin> K)"
    unfolding kept_def by (auto simp: filter_id_conv)
  show ?thesis
  proof (cases "missing = [] \<and> kept = read fs")
    case True
    with res run have "changed = False" "err = None" "fs' = fs" by simp_all
    with True None fresh mis stale show ?thesis by (simp add: K_def)
  next
    case False
    with res run obtain i where
      "changed = True" "err = writeErr fs"
      "fs' = fs\<lparr>written := Some (take i kept @ missing @ drop i kept)\<rparr>"
      by auto
    with False None mis stale show ?thesis by (auto simp: K_def)
  qed
qed

lemma UpdateIps_changed_iff_written_failing_write:
  "UpdateIps ipText (\<lambda>k. 0) (\<lambda>k. 0) (ttlDriftFs (Some ''disk full'')) ''test-01.my.tld'' [testRecord] =
     Inr ((True, Some ''disk full''), (ttlDriftFs (Some ''disk full''))\<lparr>written := Some ttlDriftFixed\<rparr>) \<and>
   written (ttlDriftFs (Some ''disk full'')) = None \<and>
   written ((ttlDriftFs (Some ''disk full''))\<lparr>written := Some ttlDriftFixed\<rparr>) \<noteq> None \<and>
   Some ''disk full'' = writeErr (ttlDriftFs (Some ''disk full'')) \<and>
   readErr (ttlDriftFs (Some ''disk full'')) = None"
proof -
  have fresh: "written (ttlDriftFs (Some ''disk full'')) = None"
    by (simp add: ttlDriftFs_def)
  from UpdateIps_changed_iff_written [OF ttlDrift_run fresh] ttlDrift_run fresh show ?thesis
    by blast
qed

text \<open>
  Claim C10: \<open>UpdateIps\<close> returns \<open>changed = true\<close> exactly when a desired line was
  missing or a stale owned line existed. The code evaluated on a file with two stale lines
  of the host before the present AAAA line, for every order of ranging over the map: the
  read succeeds, stale lines exist and the desired A line is missing, and the call panics
  in \<open>slices.Insert\<close>, so it returns nothing and writes nothing.
\<close>

theorem C10_panics_with_stale_lines:
  "UpdateIps ipText rankMissing rankIdx
     \<lparr>read = [zoneLine ''h 60 A 10.0.0.1'', zoneLine ''h 60 A 10.0.0.2'', zoneLine ''h 30 AAAA ::1''],
      readErr = None, written = None, writeErr = None\<rparr>
     ''h''
     [managed ''h'' 200 ''A'' [10, 0, 0, 1] 30 (Healthy 5 5 5),
      managed ''h'' 100 ''AAAA'' [0, 0, 0, 0, 0, 0, 0, 0, 0, 0, 0, 0, 0, 0, 0, 1] 30 (Healthy 5 5 5)] =
   Inl IndexOutOfRange \<and>
   prefix (ownedPrefix ''h'') (zoneLine ''h 60 A 10.0.0.1'') \<and>
   zoneLine ''h 60 A 10.0.0.1'' \<notin> set (map (recordToUnbound ipText ''h'')
     [managed ''h'' 200 ''A'' [10, 0, 0, 1] 30 (Healthy 5 5 5),
      managed ''h'' 100 ''AAAA'' [0, 0, 0, 0, 0, 0, 0, 0, 0, 0, 0, 0, 0, 0, 0, 1] 30 (Healthy 5 5 5)]) \<and>
   recordToUnbound ipText ''h'' (managed ''h'' 200 ''A'' [10, 0, 0, 1] 30 (Healthy 5 5 5)) \<notin>
     set [zoneLine ''h 60 A 10.0.0.1'', zoneLine ''h 60 A 10.0.0.2'', zoneLine ''h 30 AAAA ::1'']"
  by (simp add: eval_defs)

end
